theory Spec2Isabelle
  imports Main "HOL-Library.Sublist"
begin

section \<open>Python strings and values\<close>

text \<open>
  A Python \<open>str\<close> is modelled as a \<^typ>\<open>string\<close> whose characters are the code points
  below 256. The string operations of the source are the following:
  \<^item> \<open>s.startswith(t)\<close> is \<^term>\<open>prefix t s\<close>, \<open>s.endswith(t)\<close> is \<^term>\<open>suffix t s\<close> and
    \<open>t in s\<close> is \<^term>\<open>sublist t s\<close> (a contiguous occurrence), all three executable;
  \<^item> \<open>s.strip()\<close>, \<open>s.split(c)\<close> for a one-character separator, \<open>sep.join(xs)\<close> and
    \<open>s.lower()\<close> are defined below.
\<close>

definition py_isspace :: "char \<Rightarrow> bool" where
  "py_isspace c =
     (let n = (of_char c :: nat)
      in (9 \<le> n \<and> n \<le> 13) \<or> (28 \<le> n \<and> n \<le> 32) \<or> n = 133 \<or> n = 160)"

definition py_strip :: "string \<Rightarrow> string" where
  "py_strip s = rev (dropWhile py_isspace (rev (dropWhile py_isspace s)))"

fun py_split :: "char \<Rightarrow> string \<Rightarrow> string list" where
  "py_split c [] = [[]]"
| "py_split c (x # xs) =
     (if x = c then [] # py_split c xs
      else (case py_split c xs of
              [] \<Rightarrow> [[x]]
            | l # ls \<Rightarrow> (x # l) # ls))"

fun py_join :: "string \<Rightarrow> string list \<Rightarrow> string" where
  "py_join sep [] = []"
| "py_join sep [x] = x"
| "py_join sep (x # y # ys) = x @ sep @ py_join sep (y # ys)"

definition py_lower_char :: "char \<Rightarrow> char" where
  "py_lower_char c =
     (let n = (of_char c :: nat)
      in if (65 \<le> n \<and> n \<le> 90) \<or> (192 \<le> n \<and> n \<le> 222 \<and> n \<noteq> 215)
         then char_of (n + 32) else c)"

definition py_lower :: "string \<Rightarrow> string" where
  "py_lower s = map py_lower_char s"

text \<open>
  The values of a style dictionary come from a JSON document or from the command line.
  \<open>JOther\<close> stands for a float, list or object, carried as the text that Python's
  \<open>format\<close> produces for it (floating point is not modelled).
\<close>

datatype jvalue = JString string | JInt int | JBool bool | JNull | JOther string

definition digit_char :: "nat \<Rightarrow> char" where
  "digit_char d = ''0123456789'' ! d"

fun nat_digits :: "nat \<Rightarrow> string" where
  "nat_digits n =
     (if n < 10 then [digit_char n] else nat_digits (n div 10) @ [digit_char (n mod 10)])"

declare nat_digits.simps [simp del]

definition int_str :: "int \<Rightarrow> string" where
  "int_str i = (if i < 0 then CHR ''-'' # nat_digits (nat (- i)) else nat_digits (nat i))"

fun py_format :: "jvalue \<Rightarrow> string" where
  "py_format (JString s) = s"
| "py_format (JInt i) = int_str i"
| "py_format (JBool b) = (if b then ''True'' else ''False'')"
| "py_format JNull = ''None''"
| "py_format (JOther s) = s"

text \<open>
  A dictionary is an association list read with \<^const>\<open>map_of\<close>; it is falsy in Python
  exactly when it has no entry.
\<close>

type_synonym style_config = "(string \<times> jvalue) list"

definition dict_get :: "style_config \<Rightarrow> string \<Rightarrow> jvalue \<Rightarrow> jvalue" where
  "dict_get d k dflt = (case map_of d k of None \<Rightarrow> dflt | Some v \<Rightarrow> v)"


section \<open>Style-line synthesis\<close>

text \<open>\<open>SubtitleProcessor.create_ass_style_line\<close>: the line is built by successive appends.\<close>

definition create_ass_style_line :: "style_config \<Rightarrow> string \<Rightarrow> string" where
  "create_ass_style_line style_config style_name =
     (let style_line = ''Style: '' @ style_name @ '','';
          style_line = style_line @ py_format (dict_get style_config ''font_name'' (JString ''Arial'')) @ '','';
          style_line = style_line @ py_format (dict_get style_config ''font_size'' (JInt 20)) @ '','';
          style_line = style_line @ py_format (dict_get style_config ''primary_color'' (JString ''&H00FFFFFF'')) @ '','';
          style_line = style_line @ py_format (dict_get style_config ''secondary_color'' (JString ''&H000000FF'')) @ '','';
          style_line = style_line @ py_format (dict_get style_config ''outline_color'' (JString ''&H00000000'')) @ '','';
          style_line = style_line @ py_format (dict_get style_config ''back_color'' (JString ''&H80000000'')) @ '','';
          style_line = style_line @ py_format (dict_get style_config ''bold'' (JInt 0)) @ '','';
          style_line = style_line @ py_format (dict_get style_config ''italic'' (JInt 0)) @ '','';
          style_line = style_line @ ''0,0,100,100,0,0,1,'';
          style_line = style_line @ py_format (dict_get style_config ''outline'' (JInt 2)) @ '','';
          style_line = style_line @ py_format (dict_get style_config ''shadow'' (JInt 0)) @ '','';
          style_line = style_line @ py_format (dict_get style_config ''alignment'' (JInt 2)) @ '','';
          style_line = style_line @ py_format (dict_get style_config ''margin_left'' (JInt 10)) @ '','';
          style_line = style_line @ py_format (dict_get style_config ''margin_right'' (JInt 10)) @ '','';
          style_line = style_line @ py_format (dict_get style_config ''margin_vertical'' (JInt 10)) @ '','';
          style_line = style_line @ ''1''
      in style_line)"

text \<open>
  The specification's reading of the same line: 23 fields in a fixed order, each the
  formatted configuration value or its default, joined by commas after \<open>Style: \<close>.
\<close>

definition config_field :: "style_config \<Rightarrow> string \<Rightarrow> jvalue \<Rightarrow> string" where
  "config_field c k dflt = (case map_of c k of Some v \<Rightarrow> py_format v | None \<Rightarrow> py_format dflt)"

definition spec_style_fields :: "style_config \<Rightarrow> string \<Rightarrow> string list" where
  "spec_style_fields c name =
     [name,
      config_field c ''font_name'' (JString ''Arial''),
      config_field c ''font_size'' (JInt 20),
      config_field c ''primary_color'' (JString ''&H00FFFFFF''),
      config_field c ''secondary_color'' (JString ''&H000000FF''),
      config_field c ''outline_color'' (JString ''&H00000000''),
      config_field c ''back_color'' (JString ''&H80000000''),
      config_field c ''bold'' (JInt 0),
      config_field c ''italic'' (JInt 0),
      ''0'', ''0'', ''100'', ''100'',
      ''0'', ''0'', ''1'',
      config_field c ''outline'' (JInt 2),
      config_field c ''shadow'' (JInt 0),
      config_field c ''alignment'' (JInt 2),
      config_field c ''margin_left'' (JInt 10),
      config_field c ''margin_right'' (JInt 10),
      config_field c ''margin_vertical'' (JInt 10),
      ''1'']"


section \<open>The style patcher\<close>

text \<open>
  \<open>SubtitleProcessor.apply_styling_from_config\<close>. The local variables of the main loop
  form the state that is threaded through the lines of the document.
\<close>

record scan_state =
  in_v4_styles :: bool
  style_format_found :: bool
  default_style_replaced :: bool
  new_lines :: "string list"

definition initial_scan_state :: scan_state where
  "initial_scan_state =
     \<lparr>in_v4_styles = False, style_format_found = False,
      default_style_replaced = False, new_lines = []\<rparr>"

definition leaves_styles :: "string \<Rightarrow> bool" where
  "leaves_styles line =
     (prefix ''['' line \<and> suffix '']'' line \<and> py_strip line \<noteq> ''[V4+ Styles]'')"

definition scan_line :: "style_config \<Rightarrow> scan_state \<Rightarrow> string \<Rightarrow> scan_state" where
  "scan_line style_config st line =
     (if py_strip line = ''[V4+ Styles]''
      then st\<lparr>in_v4_styles := True, new_lines := new_lines st @ [line]\<rparr>
      else
        let st = (if leaves_styles line then st\<lparr>in_v4_styles := False\<rparr> else st)
        in if in_v4_styles st
           then (if prefix ''Format:'' line
                 then st\<lparr>style_format_found := True, new_lines := new_lines st @ [line]\<rparr>
                 else if prefix ''Style:'' line \<and> sublist ''Default'' line
                         \<and> \<not> default_style_replaced st
                 then st\<lparr>new_lines := new_lines st @ [create_ass_style_line style_config ''Default''],
                         default_style_replaced := True\<rparr>
                 else if prefix ''Style:'' line
                 then st\<lparr>new_lines := new_lines st @ [line]\<rparr>
                 else st\<lparr>new_lines := new_lines st @ [line]\<rparr>)
           else st\<lparr>new_lines := new_lines st @ [line]\<rparr>)"

text \<open>
  The insertion pass. The inner \<open>while\<close> loop walks an integer index down from \<open>i - 1\<close>
  until it meets a styles header or falls below zero.
\<close>

function find_section_start :: "string list \<Rightarrow> int \<Rightarrow> int" where
  "find_section_start lines section_start =
     (if section_start \<ge> 0 \<and> \<not> py_strip (lines ! nat section_start) = ''[V4+ Styles]''
      then find_section_start lines (section_start - 1)
      else section_start)"
  by pat_completeness auto
termination
  by (relation "measure (\<lambda>(lines, section_start). nat (section_start + 1))") auto

declare find_section_start.simps [simp del]

function insert_default_style :: "style_config \<Rightarrow> string list \<Rightarrow> nat \<Rightarrow> string list" where
  "insert_default_style style_config lines i =
     (if i < length lines
      then (if prefix ''Format:'' (lines ! i) \<and> i > 0
               \<and> find_section_start lines (int i - 1) \<ge> 0
            then take (i + 1) lines @ [create_ass_style_line style_config ''Default'']
                   @ drop (i + 1) lines
            else insert_default_style style_config lines (i + 1))
      else lines)"
  by pat_completeness auto
termination
  by (relation "measure (\<lambda>(style_config, lines, i). length lines - i)") auto

declare insert_default_style.simps [simp del]

definition patch_lines :: "style_config \<Rightarrow> string list \<Rightarrow> string list" where
  "patch_lines style_config lines =
     (let st = foldl (scan_line style_config) initial_scan_state lines
      in if \<not> default_style_replaced st \<and> style_format_found st
         then insert_default_style style_config (new_lines st) 0
         else new_lines st)"

text \<open>
  The text-to-text function computed between reading and writing the file: split at line
  feeds, patch, join with line feeds.
\<close>

definition apply_style_text :: "string \<Rightarrow> style_config \<Rightarrow> string" where
  "apply_style_text content style_config =
     py_join [CHR 0x0A] (patch_lines style_config (py_split (CHR 0x0A) content))"

text \<open>
  The method itself, with its file. A file is represented by the characters stored in
  it, \<open>None\<close> when opening or decoding it raises. Both \<open>open\<close> calls use text mode with
  the default newline handling: on reading, \<open>\r\n\<close> and a lone \<open>\r\<close> arrive as \<open>\n\<close>; on
  writing, \<open>\n\<close> is stored as the platform's line separator. Opening for writing
  truncates the file, so the write step has three outcomes: it succeeds, \<open>open\<close> raises
  and the file is as before, or the write raises after the truncation and the file holds
  whatever reached it (nothing, for an encoding error). Every exception ends in the
  \<open>except\<close> branch, which returns \<open>False\<close>. The result is the returned flag and the file
  afterwards.
\<close>

datatype platform = Posix | Windows

fun universal_newlines :: "string \<Rightarrow> string" where
  "universal_newlines [] = []"
| "universal_newlines [ch] = (if ch = CHR 0x0D then [CHR 0x0A] else [ch])"
| "universal_newlines (ch # d # s) =
     (if ch = CHR 0x0D \<and> d = CHR 0x0A then CHR 0x0A # universal_newlines s
      else if ch = CHR 0x0D then CHR 0x0A # universal_newlines (d # s)
      else ch # universal_newlines (d # s))"

fun write_newlines :: "platform \<Rightarrow> string \<Rightarrow> string" where
  "write_newlines Posix s = s"
| "write_newlines Windows s =
     concat (map (\<lambda>ch. if ch = CHR 0x0A then [CHR 0x0D, CHR 0x0A] else [ch]) s)"

datatype write_outcome = Written | OpenRaises | WriteRaises string

definition apply_styling_from_config ::
  "platform \<Rightarrow> write_outcome \<Rightarrow> string option \<Rightarrow> style_config \<Rightarrow> bool \<times> string option" where
  "apply_styling_from_config os wr ass_file style_config =
     (case ass_file of
        None \<Rightarrow> (False, None)
      | Some stored \<Rightarrow>
          (let content = universal_newlines stored;
               new_text = apply_style_text content style_config
           in case wr of
                Written \<Rightarrow> (True, Some (write_newlines os new_text))
              | OpenRaises \<Rightarrow> (False, Some stored)
              | WriteRaises left \<Rightarrow> (False, Some left)))"

text \<open>
  Auxiliary functions for reasoning about the main loop: the same scan written as direct
  recursion over the remaining lines, one function per component of the state.
  \<open>styles_flags\<close> marks the lines that the loop treats as lying inside the styles
  section (the header itself and the line that opens the next section are outside).
\<close>

definition is_styles_header :: "string \<Rightarrow> bool" where
  "is_styles_header line = (py_strip line = ''[V4+ Styles]'')"

definition is_default_candidate :: "string \<Rightarrow> bool" where
  "is_default_candidate line = (prefix ''Style:'' line \<and> sublist ''Default'' line)"

fun styles_flags :: "bool \<Rightarrow> string list \<Rightarrow> bool list" where
  "styles_flags inside [] = []"
| "styles_flags inside (l # ls) =
     (if is_styles_header l then False # styles_flags True ls
      else (inside \<and> \<not> leaves_styles l) # styles_flags (inside \<and> \<not> leaves_styles l) ls)"

definition outside_lines :: "bool \<Rightarrow> string list \<Rightarrow> string list" where
  "outside_lines inside ls = map fst (filter (\<lambda>(l, f). \<not> f) (zip ls (styles_flags inside ls)))"

fun scan_out :: "style_config \<Rightarrow> bool \<Rightarrow> bool \<Rightarrow> string list \<Rightarrow> string list" where
  "scan_out c inside replaced [] = []"
| "scan_out c inside replaced (l # ls) =
     (if is_styles_header l then l # scan_out c True replaced ls
      else if inside \<and> \<not> leaves_styles l \<and> \<not> prefix ''Format:'' l
              \<and> is_default_candidate l \<and> \<not> replaced
      then create_ass_style_line c ''Default'' # scan_out c True True ls
      else l # scan_out c (inside \<and> \<not> leaves_styles l) replaced ls)"

fun scan_format :: "bool \<Rightarrow> string list \<Rightarrow> bool" where
  "scan_format inside [] = False"
| "scan_format inside (l # ls) =
     (if is_styles_header l then scan_format True ls
      else (inside \<and> \<not> leaves_styles l \<and> prefix ''Format:'' l)
           \<or> scan_format (inside \<and> \<not> leaves_styles l) ls)"

fun scan_replaced :: "bool \<Rightarrow> bool \<Rightarrow> string list \<Rightarrow> bool" where
  "scan_replaced inside replaced [] = replaced"
| "scan_replaced inside replaced (l # ls) =
     (if is_styles_header l then scan_replaced True replaced ls
      else scan_replaced (inside \<and> \<not> leaves_styles l)
             (replaced \<or> (inside \<and> \<not> leaves_styles l \<and> \<not> prefix ''Format:'' l
                           \<and> is_default_candidate l)) ls)"

fun scan_inside :: "bool \<Rightarrow> string list \<Rightarrow> bool" where
  "scan_inside inside [] = inside"
| "scan_inside inside (l # ls) =
     (if is_styles_header l then scan_inside True ls
      else scan_inside (inside \<and> \<not> leaves_styles l) ls)"

text \<open>
  The insertion pass as recursion over the list: the line goes after the first
  \<open>Format:\<close> line that has a styles header somewhere before it.
\<close>

fun insert_after_format :: "style_config \<Rightarrow> bool \<Rightarrow> string list \<Rightarrow> string list" where
  "insert_after_format c seen [] = []"
| "insert_after_format c seen (l # ls) =
     (if prefix ''Format:'' l \<and> seen then l # create_ass_style_line c ''Default'' # ls
      else l # insert_after_format c (seen \<or> is_styles_header l) ls)"

text \<open>
  The specification speaks of the name field of a style line: the text between
  \<open>Style:\<close> and the first comma, without surrounding blanks.
\<close>

definition style_name :: "string \<Rightarrow> string option" where
  "style_name line =
     (if prefix ''Style:'' line
      then Some (py_strip (takeWhile (\<lambda>ch. ch \<noteq> CHR '','') (drop 6 line)))
      else None)"

text \<open>Documents and style dictionaries used as concrete inputs below.\<close>

definition styled_doc :: string where
  "styled_doc = ''[Script Info]\<newline>Title: x\<newline>[V4+ Styles]\<newline>Format: Name, Fontname, Fontsize\<newline>Style: Default,Arial,20\<newline>[Events]\<newline>Dialogue: 0,hello''"

definition verdana_config :: style_config where
  "verdana_config = [(''font_name'', JString ''Verdana''), (''font_size'', JInt 24)]"

definition plain_doc :: string where
  "plain_doc = ''[Script Info]\<newline>Title: x\<newline>[Events]\<newline>Dialogue: 0,hello''"

definition two_line_doc :: string where
  "two_line_doc = ''[V4+ Styles]\<newline>Style: Default''"

definition multiline_font_config :: style_config where
  "multiline_font_config = [(''font_name'', JString ''A\<newline>B\<newline>C'')]"

definition carriage_return_config :: style_config where
  "carriage_return_config = [(''font_name'', JString [CHR ''A'', CHR 0x0D, CHR ''B''])]"

definition crlf_file :: string where
  "crlf_file = [CHR ''['', CHR ''S'', CHR '']'', CHR 0x0D, CHR 0x0A] @ ''[V4+ Styles]''
     @ [CHR 0x0D, CHR 0x0A] @ ''Format: Name, Fontname'' @ [CHR 0x0D, CHR 0x0A] @ ''[Events]''"

definition two_headers_doc :: string where
  "two_headers_doc = ''[V4+ Styles]\<newline>[Events]\<newline>Format: Layer\<newline>[V4+ Styles]\<newline>Format: Name''"

definition default_alt_doc :: string where
  "default_alt_doc = ''[V4+ Styles]\<newline>Format: Name, Fontname, Fontsize\<newline>Style: Default-Alt,Arial,20\<newline>Style: Default,Verdana,18''"

definition default_font_doc :: string where
  "default_font_doc = ''[V4+ Styles]\<newline>Format: Name, Fontname, Fontsize\<newline>Style: Title,Arial,30\<newline>Style: Sign,Default Sans,30''"


section \<open>Format detection\<close>

text \<open>
  \<open>SubtitleProcessor.detect_subtitle_format\<close>. The regular expression
  \<open>\d+\n\d{2}:\d{2}:\d{2},\d{3} --> \d{2}:\d{2}:\d{2},\d{3}\<close> is a run of one or more
  digits followed by a fixed-length sequence of atoms; on code points below 256 the class
  \<open>\d\<close> is the ten ASCII digits. \<open>re.search\<close> tries every start position, and the
  run of digits may stop after any of its digits.
\<close>

definition is_digit :: "char \<Rightarrow> bool" where
  "is_digit ch = (ch \<in> set ''0123456789'')"

datatype atom = Digit | Lit char

fun atom_matches :: "atom \<Rightarrow> char \<Rightarrow> bool" where
  "atom_matches Digit ch = is_digit ch"
| "atom_matches (Lit x) ch = (ch = x)"

fun match_atoms :: "atom list \<Rightarrow> string \<Rightarrow> bool" where
  "match_atoms [] s = True"
| "match_atoms (a # as) [] = False"
| "match_atoms (a # as) (ch # s) = (atom_matches a ch \<and> match_atoms as s)"

definition timestamp_atoms :: "atom list" where
  "timestamp_atoms =
     replicate 2 Digit @ map Lit '':'' @ replicate 2 Digit @ map Lit '':''
       @ replicate 2 Digit @ map Lit '','' @ replicate 3 Digit"

definition srt_tail :: "atom list" where
  "srt_tail = Lit (CHR 0x0A) # timestamp_atoms @ map Lit '' --> '' @ timestamp_atoms"

fun match_digits_then :: "atom list \<Rightarrow> string \<Rightarrow> bool" where
  "match_digits_then as [] = False"
| "match_digits_then as (ch # s) =
     (is_digit ch \<and> (match_atoms as s \<or> match_digits_then as s))"

fun re_search_srt :: "string \<Rightarrow> bool" where
  "re_search_srt [] = match_digits_then srt_tail []"
| "re_search_srt (ch # s) = (match_digits_then srt_tail (ch # s) \<or> re_search_srt s)"

text \<open>
  The argument is the text read from the file (undecodable bytes already dropped), or
  \<open>None\<close> when opening it raises, which the method answers with \<open>unknown\<close>.
\<close>

definition detect_subtitle_format :: "string option \<Rightarrow> string" where
  "detect_subtitle_format subtitle_file =
     (case subtitle_file of
        None \<Rightarrow> ''unknown''
      | Some content \<Rightarrow>
          if sublist ''[Script Info]'' content then ''ass''
          else if prefix ''WEBVTT'' (py_strip content) then ''vtt''
          else if re_search_srt content then ''srt''
          else ''unknown'')"

text \<open>
  The specification's description of the SRT pattern: somewhere in the content, a
  non-empty run of digits, a line feed, and two timestamps \<open>HH:MM:SS,mmm\<close> separated by
  \<open> --> \<close>.
\<close>

definition is_timestamp :: "string \<Rightarrow> bool" where
  "is_timestamp t =
     (\<exists>hh mm ss mmm.
        t = hh @ '':'' @ mm @ '':'' @ ss @ '','' @ mmm
        \<and> length hh = 2 \<and> length mm = 2 \<and> length ss = 2 \<and> length mmm = 3
        \<and> list_all is_digit hh \<and> list_all is_digit mm \<and> list_all is_digit ss
        \<and> list_all is_digit mmm)"

definition has_srt_block :: "string \<Rightarrow> bool" where
  "has_srt_block content =
     (\<exists>before digits t1 t2 after.
        content = before @ digits @ [CHR 0x0A] @ t1 @ '' --> '' @ t2 @ after
        \<and> digits \<noteq> [] \<and> list_all is_digit digits \<and> is_timestamp t1 \<and> is_timestamp t2)"

definition ass_with_srt_doc :: string where
  "ass_with_srt_doc = ''[Script Info]\<newline>1\<newline>00:00:01,000 --> 00:00:02,500\<newline>Hello''"


section \<open>The format dispatcher\<close>

text \<open>
  \<open>VideoProcessorFactory.get_processor\<close> takes the extension with \<open>os.path.splitext\<close>
  and lowercases it. \<open>splitext\<close> is the standard library's: the extension starts at the
  last dot of the last path component, unless that component has only dots before it.
  The path separators depend on the platform.
\<close>

definition rfind :: "char \<Rightarrow> string \<Rightarrow> int" where
  "rfind ch p =
     (if ch \<in> set p
      then int (length p) - 1 - int (length (takeWhile (\<lambda>x. x \<noteq> ch) (rev p)))
      else - 1)"

function has_name_char :: "string \<Rightarrow> int \<Rightarrow> int \<Rightarrow> bool" where
  "has_name_char p filenameIndex dotIndex =
     (if filenameIndex < dotIndex
      then (if [p ! nat filenameIndex] \<noteq> ''.'' then True
            else has_name_char p (filenameIndex + 1) dotIndex)
      else False)"
  by pat_completeness auto
termination
  by (relation "measure (\<lambda>(p, filenameIndex, dotIndex). nat (dotIndex - filenameIndex))") auto

declare has_name_char.simps [simp del]

definition splitext_generic :: "char \<Rightarrow> char option \<Rightarrow> string \<Rightarrow> string \<times> string" where
  "splitext_generic sep altsep p =
     (let sepIndex = rfind sep p;
          sepIndex = (case altsep of None \<Rightarrow> sepIndex | Some a \<Rightarrow> max sepIndex (rfind a p));
          dotIndex = rfind (CHR ''.'') p
      in if dotIndex > sepIndex \<and> has_name_char p (sepIndex + 1) dotIndex
         then (take (nat dotIndex) p, drop (nat dotIndex) p)
         else (p, []))"

fun os_path_splitext :: "platform \<Rightarrow> string \<Rightarrow> string \<times> string" where
  "os_path_splitext Posix p = splitext_generic (CHR ''/'') None p"
| "os_path_splitext Windows p = splitext_generic (CHR 0x5C) (Some (CHR ''/'')) p"

datatype processor = MKVProcessor

fun get_supported_extensions :: "processor \<Rightarrow> string list" where
  "get_supported_extensions MKVProcessor = [''.mkv'']"

definition register_processor ::
  "(string \<rightharpoonup> processor) \<Rightarrow> processor \<Rightarrow> (string \<rightharpoonup> processor)" where
  "register_processor processors processor =
     fold (\<lambda>ext m. m(ext \<mapsto> processor)) (get_supported_extensions processor) processors"

definition default_processors :: "string \<rightharpoonup> processor" where
  "default_processors = register_processor Map.empty MKVProcessor"

definition get_processor :: "platform \<Rightarrow> (string \<rightharpoonup> 'p) \<Rightarrow> string \<Rightarrow> 'p option" where
  "get_processor os processors file_path =
     (let ext = py_lower (snd (os_path_splitext os file_path)) in processors ext)"

definition can_process :: "platform \<Rightarrow> (string \<rightharpoonup> 'p) \<Rightarrow> string \<Rightarrow> bool" where
  "can_process os processors file_path = (get_processor os processors file_path \<noteq> None)"


section \<open>Style configuration loading and the pipeline\<close>

datatype log_level = DEBUG | INFO | WARNING | ERROR

type_synonym log = "(log_level \<times> string) list"

text \<open>
  \<open>SubtitleProcessor.load_style_config\<close>. The argument \<open>config_read\<close> is what opening the
  file and \<open>json.load\<close> produce: one of the three failures that the method catches (with
  the text of the exception), or the parsed top-level object, whose members are style
  dictionaries. A document that is not an object makes \<open>config.get\<close> raise, which is the
  third failure; a \<open>subtitle_style\<close> member that is not an object is outside the model.
\<close>

datatype config_read =
    FileNotFound
  | InvalidJSON string
  | OtherFailure string
  | Parsed "(string \<times> style_config) list"

definition load_style_config :: "config_read \<Rightarrow> string \<Rightarrow> style_config \<times> log" where
  "load_style_config rd config_path =
     (case rd of
        Parsed config \<Rightarrow>
          (let style_config = (case map_of config ''subtitle_style'' of None \<Rightarrow> [] | Some v \<Rightarrow> v)
           in if style_config \<noteq> []
              then (style_config,
                    [(INFO, ''Loaded style configuration with ''
                        @ int_str (int (length (remdups (map fst style_config)))) @ '' parameters'')])
              else (style_config,
                    [(WARNING, ''No 'subtitle_style' section found in '' @ config_path)]))
      | FileNotFound \<Rightarrow> ([], [(ERROR, ''Configuration file not found: '' @ config_path)])
      | InvalidJSON e \<Rightarrow>
          ([], [(ERROR, ''Invalid JSON in configuration file '' @ config_path @ '': '' @ e)])
      | OtherFailure e \<Rightarrow> ([], [(ERROR, ''Failed to load style config: '' @ e)]))"

definition load_failed :: "config_read \<Rightarrow> bool" where
  "load_failed rd = (case rd of Parsed config \<Rightarrow> False | _ \<Rightarrow> True)"

text \<open>
  \<open>UniversalSubtitleProcessor.process_video_file\<close>. What the external collaborators answer
  during one run is collected in a record: a call either returns a value or raises (with
  the text of the exception). The run yields the returned flag, the styling step it
  took and the log lines written by the method and by \<open>load_style_config\<close>. The
  \<open>finally\<close> clause removes the temporary directory and never raises, so it does not show
  in the result.
\<close>

datatype 'a outcome = Raised string | Returned 'a

record subtitle_track =
  id :: int
  codec :: string
  language :: string
  track_name :: string
  is_default :: bool

record world =
  input_exists :: bool
  tools_status :: "bool list"
  host :: platform
  temp_directory :: "string outcome"
  generated_output_path :: string
  subtitle_tracks :: "subtitle_track list outcome"
  extract_result :: "bool outcome"
  extracted_file :: "string option"
  convert_result :: "bool outcome"
  config_read :: config_read
  aegisub_available :: bool
  manual_edit :: "unit outcome"
  merge_result :: "bool outcome"

record request =
  input_video :: string
  output_video :: "string option"
  track_id :: "int option"
  style_config :: "style_config option"
  style_config_file :: "string option"
  manual_styling :: bool

datatype styling = Unstyled | ManualStyling | AutomaticStyling style_config

record run =
  success :: bool
  styling :: styling
  log :: log

definition select_track ::
  "subtitle_track \<Rightarrow> subtitle_track list \<Rightarrow> int option \<Rightarrow> subtitle_track option \<times> log" where
  "select_track first_track tracks tid =
     (case tid of
        None \<Rightarrow> (Some first_track, [(INFO, ''Auto-selected track '' @ int_str (id first_track))])
      | Some t \<Rightarrow>
          (case find (\<lambda>tr. id tr = t) tracks of
             None \<Rightarrow> (None, [(ERROR, ''Track '' @ int_str t @ '' not found'')])
           | Some tr \<Rightarrow> (Some tr, [])))"

definition truthy_config :: "style_config option \<Rightarrow> style_config option" where
  "truthy_config c = (case c of Some d \<Rightarrow> if d \<noteq> [] then Some d else None | None \<Rightarrow> None)"

definition resolve_style_config :: "world \<Rightarrow> request \<Rightarrow> style_config option \<times> log" where
  "resolve_style_config w rq =
     (case style_config_file rq of
        Some path \<Rightarrow>
          if path \<noteq> []
          then (let (final_style_config, lg) = load_style_config (config_read w) path
                in (Some final_style_config,
                    lg @ [(INFO, ''Loaded style configuration from '' @ path)]))
          else (truthy_config (style_config rq), [])
      | None \<Rightarrow> (truthy_config (style_config rq), []))"

definition style_and_merge ::
  "world \<Rightarrow> request \<Rightarrow> style_config option \<Rightarrow> bool outcome \<times> styling \<times> log" where
  "style_and_merge w rq final_style_config =
     (let (styled, how, lg) =
            (if manual_styling rq \<and> aegisub_available w
             then (manual_edit w, ManualStyling,
                   [(INFO, ''Opening Aegisub for manual styling...'')])
             else (case truthy_config final_style_config of
                     Some c \<Rightarrow> (Returned (), AutomaticStyling c, [])
                   | None \<Rightarrow> (Returned (), Unstyled, [])));
          output = (case output_video rq of
                      Some p \<Rightarrow> if p \<noteq> [] then p else generated_output_path w
                    | None \<Rightarrow> generated_output_path w)
      in case styled of
           Raised e \<Rightarrow> (Raised e, how, lg)
         | Returned u \<Rightarrow>
             (case merge_result w of
                Raised e \<Rightarrow> (Raised e, how, lg)
              | Returned ok \<Rightarrow>
                  (Returned ok, how,
                   lg @ (if ok then [(INFO, ''Successfully processed video: '' @ output)]
                         else []))))"

definition convert_style_merge :: "world \<Rightarrow> request \<Rightarrow> bool outcome \<times> styling \<times> log" where
  "convert_style_merge w rq =
     (let subtitle_format = detect_subtitle_format (extracted_file w)
      in case (if subtitle_format \<noteq> ''ass'' then convert_result w else Returned True) of
           Raised e \<Rightarrow> (Raised e, Unstyled, [])
         | Returned converted \<Rightarrow>
             if \<not> converted then (Returned False, Unstyled, [])
             else (let (final_style_config, lg1) = resolve_style_config w rq;
                       (res, how, lg2) = style_and_merge w rq final_style_config
                   in (res, how, lg1 @ lg2)))"

definition process_body :: "world \<Rightarrow> request \<Rightarrow> bool outcome \<times> styling \<times> log" where
  "process_body w rq =
     (if \<not> input_exists w
      then (Returned False, Unstyled, [(ERROR, ''Input file not found: '' @ input_video rq)])
      else if \<not> list_ex (\<lambda>b. b) (tools_status w)
      then (Returned False, Unstyled, [(ERROR, ''No video processing tools available'')])
      else if \<not> can_process (host w) default_processors (input_video rq)
      then (Returned False, Unstyled, [(ERROR, ''Unsupported file type: '' @ input_video rq)])
      else case temp_directory w of
             Raised e \<Rightarrow> (Raised e, Unstyled, [])
           | Returned temp_dir \<Rightarrow>
               (case subtitle_tracks w of
                  Raised e \<Rightarrow> (Raised e, Unstyled, [])
                | Returned [] \<Rightarrow>
                    (Returned False, Unstyled,
                     [(ERROR, ''No subtitle tracks found in video file'')])
                | Returned (first_track # others) \<Rightarrow>
                    (case select_track first_track (first_track # others) (track_id rq) of
                       (None, lg) \<Rightarrow> (Returned False, Unstyled, lg)
                     | (Some selected_track, lg) \<Rightarrow>
                         (case extract_result w of
                            Raised e \<Rightarrow> (Raised e, Unstyled, lg)
                          | Returned extracted \<Rightarrow>
                              if \<not> extracted then (Returned False, Unstyled, lg)
                              else (let (res, how, lg') = convert_style_merge w rq
                                    in (res, how, lg @ lg'))))))"

definition process_video_file :: "world \<Rightarrow> request \<Rightarrow> run" where
  "process_video_file w rq =
     (case process_body w rq of
        (Raised e, how, lg) \<Rightarrow>
          \<lparr>success = False, styling = how, log = lg @ [(ERROR, ''Processing failed: '' @ e)]\<rparr>
      | (Returned ok, how, lg) \<Rightarrow> \<lparr>success = ok, styling = how, log = lg\<rparr>)"

definition sample_world :: world where
  "sample_world =
     \<lparr>input_exists = True, tools_status = [True], host = Posix,
      temp_directory = Returned ''/tmp/mkv_subtitle_x'',
      generated_output_path = ''movie_processed.mkv'',
      subtitle_tracks = Returned [\<lparr>id = 2, codec = ''SubStationAlpha'', language = ''eng'',
                                   track_name = [], is_default = True\<rparr>],
      extract_result = Returned True,
      extracted_file = Some styled_doc,
      convert_result = Returned True,
      config_read = FileNotFound,
      aegisub_available = False,
      manual_edit = Returned (),
      merge_result = Returned True\<rparr>"

definition sample_request :: request where
  "sample_request =
     \<lparr>input_video = ''movie.mkv'', output_video = None, track_id = None, style_config = None,
      style_config_file = Some ''missing.json'', manual_styling = False\<rparr>"


section \<open>Properties of the style-line synthesis\<close>

lemma config_field_dict_get: "py_format (dict_get c k d) = config_field c k d"
  by (simp add: dict_get_def config_field_def split: option.splits)

text \<open>
  Claim C2. On the empty style dictionary and the name \<open>Default\<close> the synthesized line is
  exactly the documented default style line.
\<close>

theorem create_ass_style_line_empty:
  "create_ass_style_line [] ''Default'' =
     ''Style: Default,Arial,20,&H00FFFFFF,&H000000FF,&H00000000,&H80000000,0,0,0,0,100,100,0,0,1,2,0,2,10,10,10,1''"
  by (simp add: create_ass_style_line_def dict_get_def int_str_def nat_digits.simps digit_char_def)

text \<open>
  Claim C4. For every style dictionary and every name, the synthesized line is
  \<open>Style: \<close> followed by the comma-joined list of exactly 23 fields in the documented
  order: the name, then each configured value as formatted (or the stated default when the
  key is absent), with the fixed literals in between. No field is inspected or altered on
  the way: whatever text a value formats to is the text of its field.
\<close>

theorem create_ass_style_line_fields:
  "create_ass_style_line c name = ''Style: '' @ py_join '','' (spec_style_fields c name)
   \<and> length (spec_style_fields c name) = 23"
  by (simp add: create_ass_style_line_def spec_style_fields_def config_field_dict_get)


section \<open>The main loop and the insertion pass as recursions\<close>

lemma scan_replaced_True: "scan_replaced i True ls"
  by (induction ls arbitrary: i) auto

lemma scan_line_step:
  "scan_line c st l =
     \<lparr>in_v4_styles = scan_inside (in_v4_styles st) [l],
      style_format_found = (style_format_found st \<or> scan_format (in_v4_styles st) [l]),
      default_style_replaced = scan_replaced (in_v4_styles st) (default_style_replaced st) [l],
      new_lines = new_lines st @ scan_out c (in_v4_styles st) (default_style_replaced st) [l]\<rparr>"
  by (cases st) (auto simp add: scan_line_def is_styles_header_def is_default_candidate_def Let_def)

lemma foldl_scan_line:
  "foldl (scan_line c) st ls =
     \<lparr>in_v4_styles = scan_inside (in_v4_styles st) ls,
      style_format_found = (style_format_found st \<or> scan_format (in_v4_styles st) ls),
      default_style_replaced = scan_replaced (in_v4_styles st) (default_style_replaced st) ls,
      new_lines = new_lines st @ scan_out c (in_v4_styles st) (default_style_replaced st) ls\<rparr>"
proof (induction ls arbitrary: st)
  case Nil
  show ?case by simp
next
  case (Cons l ls)
  have "foldl (scan_line c) st (l # ls) = foldl (scan_line c) (scan_line c st l) ls"
    by simp
  also have "\<dots> =
     \<lparr>in_v4_styles = scan_inside (in_v4_styles (scan_line c st l)) ls,
      style_format_found =
        (style_format_found (scan_line c st l) \<or> scan_format (in_v4_styles (scan_line c st l)) ls),
      default_style_replaced =
        scan_replaced (in_v4_styles (scan_line c st l)) (default_style_replaced (scan_line c st l)) ls,
      new_lines = new_lines (scan_line c st l)
        @ scan_out c (in_v4_styles (scan_line c st l)) (default_style_replaced (scan_line c st l)) ls\<rparr>"
    by (rule Cons.IH)
  also have "\<dots> =
     \<lparr>in_v4_styles = scan_inside (in_v4_styles st) (l # ls),
      style_format_found = (style_format_found st \<or> scan_format (in_v4_styles st) (l # ls)),
      default_style_replaced = scan_replaced (in_v4_styles st) (default_style_replaced st) (l # ls),
      new_lines = new_lines st @ scan_out c (in_v4_styles st) (default_style_replaced st) (l # ls)\<rparr>"
    unfolding scan_line_step by (auto simp: scan_replaced_True)
  finally show ?case .
qed

lemma patch_lines_scan:
  "patch_lines c ls =
     (if \<not> scan_replaced False False ls \<and> scan_format False ls
      then insert_default_style c (scan_out c False False ls) 0
      else scan_out c False False ls)"
  by (simp add: patch_lines_def foldl_scan_line initial_scan_state_def Let_def)

text \<open>
  The flags of \<open>styles_flags\<close> are the values of \<open>in_v4_styles\<close> after each line of the
  main loop, except on the styles headers, which the loop copies before any other test.
\<close>

lemma styles_flags_nth:
  "i < length ls \<Longrightarrow>
   styles_flags b ls ! i = (\<not> is_styles_header (ls ! i) \<and> scan_inside b (take (Suc i) ls))"
proof (induction ls arbitrary: b i)
  case Nil
  then show ?case by simp
next
  case (Cons l ls)
  show ?case
  proof (cases i)
    case 0
    then show ?thesis by simp
  next
    case (Suc j)
    with Cons.prems have "j < length ls" by simp
    with Suc Cons.IH show ?thesis by simp
  qed
qed

lemma styles_flags_scan_line:
  "i < length ls \<Longrightarrow>
   styles_flags False ls ! i
     = (\<not> is_styles_header (ls ! i)
        \<and> in_v4_styles (foldl (scan_line c) initial_scan_state (take (Suc i) ls)))"
  by (simp add: styles_flags_nth foldl_scan_line initial_scan_state_def)

lemma length_scan_out: "length (scan_out c i r ls) = length ls"
  by (induction ls arbitrary: i r) auto

lemma scan_out_replaced: "scan_out c i True ls = ls"
  by (induction ls arbitrary: i) auto

lemma scan_out_unreplaced: "\<not> scan_replaced i r ls \<Longrightarrow> scan_out c i r ls = ls"
  by (induction ls arbitrary: i r) (auto simp: scan_replaced_True)

lemma subseq_outside_scan_out: "subseq (outside_lines i ls) (scan_out c i r ls)"
  by (induction ls arbitrary: i r) (auto simp: outside_lines_def)

lemma find_section_start_nonneg:
  "s < int (length ls) \<Longrightarrow>
   (find_section_start ls s \<ge> 0) = (\<exists>k. k \<le> nat s \<and> 0 \<le> s \<and> is_styles_header (ls ! k))"
proof (induction ls s rule: find_section_start.induct)
  case (1 ls s)
  show ?case
  proof (cases "s \<ge> 0 \<and> \<not> py_strip (ls ! nat s) = ''[V4+ Styles]''")
    case True
    then have "find_section_start ls s = find_section_start ls (s - 1)"
      by (subst find_section_start.simps) simp
    moreover have "(find_section_start ls (s - 1) \<ge> 0) =
        (\<exists>k. k \<le> nat (s - 1) \<and> 0 \<le> s - 1 \<and> is_styles_header (ls ! k))"
      using "1.IH" [OF True] "1.prems" by simp
    moreover have "(\<exists>k. k \<le> nat (s - 1) \<and> 0 \<le> s - 1 \<and> is_styles_header (ls ! k)) =
        (\<exists>k. k \<le> nat s \<and> 0 \<le> s \<and> is_styles_header (ls ! k))"
    proof
      assume "\<exists>k. k \<le> nat (s - 1) \<and> 0 \<le> s - 1 \<and> is_styles_header (ls ! k)"
      then obtain k where "k \<le> nat (s - 1)" "0 \<le> s - 1" "is_styles_header (ls ! k)" by blast
      then show "\<exists>k. k \<le> nat s \<and> 0 \<le> s \<and> is_styles_header (ls ! k)"
        by (intro exI [of _ k]) auto
    next
      assume "\<exists>k. k \<le> nat s \<and> 0 \<le> s \<and> is_styles_header (ls ! k)"
      then obtain k where k: "k \<le> nat s" "0 \<le> s" "is_styles_header (ls ! k)" by blast
      with True have "k \<noteq> nat s" by (auto simp: is_styles_header_def)
      with k have "k \<le> nat (s - 1) \<and> 0 \<le> s - 1" by auto
      with k show "\<exists>k. k \<le> nat (s - 1) \<and> 0 \<le> s - 1 \<and> is_styles_header (ls ! k)" by blast
    qed
    ultimately show ?thesis by simp
  next
    case False
    then have eq: "find_section_start ls s = s"
      by (subst find_section_start.simps) auto
    show ?thesis
    proof (cases "s \<ge> 0")
      case True
      with False have "is_styles_header (ls ! nat s)" by (simp add: is_styles_header_def)
      with True eq show ?thesis by auto
    next
      case False
      with eq show ?thesis by auto
    qed
  qed
qed

lemma insert_default_style_from:
  "i \<le> length ls \<Longrightarrow>
   insert_default_style c ls i =
     take i ls @ insert_after_format c (\<exists>k<i. is_styles_header (ls ! k)) (drop i ls)"
proof (induction c ls i rule: insert_default_style.induct)
  case (1 c ls i)
  show ?case
  proof (cases "i < length ls")
    case False
    with "1.prems" show ?thesis
      by (subst insert_default_style.simps) simp
  next
    case True
    then have d: "drop i ls = ls ! i # drop (Suc i) ls"
      by (simp add: Cons_nth_drop_Suc)
    have fs: "(find_section_start ls (int i - 1) \<ge> 0) = (i > 0 \<and> (\<exists>k<i. is_styles_header (ls ! k)))"
    proof -
      have "(find_section_start ls (int i - 1) \<ge> 0)
            = (\<exists>k. k \<le> nat (int i - 1) \<and> 0 \<le> int i - 1 \<and> is_styles_header (ls ! k))"
        using True by (intro find_section_start_nonneg) simp
      also have "\<dots> = (i > 0 \<and> (\<exists>k<i. is_styles_header (ls ! k)))"
        by (cases i) (auto simp: less_Suc_eq_le)
      finally show ?thesis .
    qed
    show ?thesis
    proof (cases "prefix ''Format:'' (ls ! i) \<and> i > 0 \<and> find_section_start ls (int i - 1) \<ge> 0")
      case hit: True
      then have "insert_default_style c ls i =
          take (i + 1) ls @ [create_ass_style_line c ''Default''] @ drop (i + 1) ls"
        using True by (subst insert_default_style.simps) simp
      moreover have "take (i + 1) ls = take i ls @ [ls ! i]"
        using True by (simp add: take_Suc_conv_app_nth)
      ultimately show ?thesis using hit fs d by simp
    next
      case miss: False
      then have "insert_default_style c ls i = insert_default_style c ls (i + 1)"
        using True by (subst insert_default_style.simps) auto
      also have "\<dots> = take (i + 1) ls
            @ insert_after_format c (\<exists>k<i + 1. is_styles_header (ls ! k)) (drop (i + 1) ls)"
        using "1.IH" [OF True miss] True by simp
      also have "take (i + 1) ls = take i ls @ [ls ! i]"
        using True by (simp add: take_Suc_conv_app_nth)
      also have "(\<exists>k<i + 1. is_styles_header (ls ! k))
            = ((\<exists>k<i. is_styles_header (ls ! k)) \<or> is_styles_header (ls ! i))"
        by (auto simp: less_Suc_eq)
      finally show ?thesis using miss fs d by auto
    qed
  qed
qed

lemma insert_default_style_0: "insert_default_style c ls 0 = insert_after_format c False ls"
  using insert_default_style_from [of 0 ls c] by simp

lemma subseq_insert_after_format: "subseq ls (insert_after_format c seen ls)"
  by (induction ls arbitrary: seen) auto

lemma length_insert_after_format:
  "scan_format i ls \<Longrightarrow> (i \<longrightarrow> seen) \<Longrightarrow>
   length (insert_after_format c seen ls) = Suc (length ls)"
  by (induction ls arbitrary: i seen) (auto split: if_splits)

lemma length_patch_lines:
  "length (patch_lines c ls) =
     (if \<not> scan_replaced False False ls \<and> scan_format False ls
      then Suc (length ls) else length ls)"
  by (simp add: patch_lines_scan insert_default_style_0 scan_out_unreplaced
      length_insert_after_format [where i = False] length_scan_out)

lemma subseq_outside_patch_lines: "subseq (outside_lines False ls) (patch_lines c ls)"
proof -
  have "subseq (outside_lines False ls) (scan_out c False False ls)"
    by (rule subseq_outside_scan_out)
  moreover have "subseq (scan_out c False False ls) (patch_lines c ls)"
    by (simp add: patch_lines_scan insert_default_style_0 subseq_insert_after_format)
  ultimately show ?thesis by (rule subseq_order.order_trans)
qed


section \<open>Splitting and joining lines\<close>

lemma py_split_nonempty: "py_split c s \<noteq> []"
  by (induction s) (auto split: list.splits)

lemma py_join_Cons: "ls \<noteq> [] \<Longrightarrow> py_join sep (l # ls) = l @ sep @ py_join sep ls"
  by (cases ls) auto

lemma py_join_py_split: "py_join [c] (py_split c s) = s"
proof (induction s)
  case Nil
  show ?case by simp
next
  case (Cons x xs)
  show ?case
  proof (cases "x = c")
    case True
    then show ?thesis using Cons.IH by (simp add: py_join_Cons py_split_nonempty)
  next
    case False
    obtain l ls where s: "py_split c xs = l # ls"
      using py_split_nonempty [of c xs] by (cases "py_split c xs") auto
    have "py_join [c] ((x # l) # ls) = x # py_join [c] (l # ls)"
      by (cases ls) auto
    with False s Cons.IH show ?thesis by simp
  qed
qed

lemma py_split_no_sep: "l \<in> set (py_split c s) \<Longrightarrow> c \<notin> set l"
  by (induction s arbitrary: l) (auto split: if_splits list.splits)

lemma py_split_line: "c \<notin> set l \<Longrightarrow> py_split c l = [l]"
  by (induction l) auto

lemma py_split_append: "py_split c (a @ c # b) = py_split c a @ py_split c b"
proof (induction a)
  case Nil
  show ?case by simp
next
  case (Cons x xs)
  obtain l ls where s: "py_split c xs = l # ls"
    using py_split_nonempty [of c xs] by (cases "py_split c xs") auto
  with Cons show ?case by simp
qed

lemma py_split_py_join:
  "ls \<noteq> [] \<Longrightarrow> py_split c (py_join [c] ls) = concat (map (py_split c) ls)"
proof (induction ls)
  case Nil
  then show ?case by simp
next
  case (Cons l ls)
  show ?case
  proof (cases "ls = []")
    case True
    then show ?thesis by simp
  next
    case False
    then have "py_join [c] (l # ls) = l @ c # py_join [c] ls"
      by (simp add: py_join_Cons)
    with False Cons.IH show ?thesis by (simp add: py_split_append)
  qed
qed

lemma py_split_py_join_lines:
  "ls \<noteq> [] \<Longrightarrow> \<forall>l\<in>set ls. c \<notin> set l \<Longrightarrow> py_split c (py_join [c] ls) = ls"
proof -
  assume ne: "ls \<noteq> []" and nl: "\<forall>l\<in>set ls. c \<notin> set l"
  have "concat (map (py_split c) ls) = concat (map (\<lambda>l. [l]) ls)"
    using nl by (intro arg_cong [where f = concat] map_cong) (auto simp: py_split_line)
  also have "\<dots> = ls" by (induction ls) auto
  finally show ?thesis using ne by (simp add: py_split_py_join)
qed

lemma subseq_concat_split:
  "subseq xs ys \<Longrightarrow> \<forall>x\<in>set xs. f x = [x] \<Longrightarrow> subseq xs (concat (map f ys))"
proof (induction rule: list_emb.induct)
  case (list_emb_Nil ys)
  show ?case by simp
next
  case (list_emb_Cons xs ys y)
  then have "subseq xs (concat (map f ys))" by simp
  then show ?case by (simp add: list_emb_append2)
next
  case (list_emb_Cons2 x y xs ys)
  then have "subseq xs (concat (map f ys))" and "f y = [x]" by simp_all
  then show ?case by simp
qed

lemma length_concat_split:
  "length ls \<le> length (concat (map (py_split c) ls))"
proof (induction ls)
  case Nil
  show ?case by simp
next
  case (Cons l ls)
  have "1 \<le> length (py_split c l)"
    using py_split_nonempty [of c l] by (cases "py_split c l") auto
  with Cons show ?case by simp
qed

lemma outside_lines_subset: "set (outside_lines i ls) \<subseteq> set ls"
  by (auto simp: outside_lines_def dest: set_zip_leftD)

lemma patch_lines_nonempty: "ls \<noteq> [] \<Longrightarrow> patch_lines c ls \<noteq> []"
  using length_patch_lines [of c ls] by (auto split: if_splits)

lemma no_header_scan:
  "\<forall>l\<in>set ls. \<not> is_styles_header l \<Longrightarrow> scan_out c False r ls = ls"
  by (induction ls arbitrary: r) auto

lemma no_header_format:
  "\<forall>l\<in>set ls. \<not> is_styles_header l \<Longrightarrow> \<not> scan_format False ls"
  by (induction ls) auto

lemma no_header_patch_lines:
  "\<forall>l\<in>set ls. \<not> is_styles_header l \<Longrightarrow> patch_lines c ls = ls"
  by (simp add: patch_lines_scan no_header_scan no_header_format)


section \<open>The synthesized line under a second scan\<close>

lemma style_line_shape:
  "\<exists>r. create_ass_style_line c name = ''Style: '' @ name @ '','' @ r"
  by (simp add: create_ass_style_line_def)

lemma py_strip_first: "\<not> py_isspace x \<Longrightarrow> \<exists>t. py_strip (x # s) = x # t"
proof -
  assume nx: "\<not> py_isspace x"
  have "\<exists>ys. dropWhile py_isspace (rev s @ [x]) = ys @ [x]"
    using nx by (cases "\<forall>y\<in>set (rev s). py_isspace y") (auto simp: dropWhile_append)
  then obtain ys where "dropWhile py_isspace (rev s @ [x]) = ys @ [x]" by blast
  with nx show ?thesis by (simp add: py_strip_def)
qed

lemma default_line_facts:
  "prefix ''Style:'' (create_ass_style_line c ''Default'')"
  "sublist ''Default'' (create_ass_style_line c ''Default'')"
  "\<not> prefix ''Format:'' (create_ass_style_line c ''Default'')"
  "\<not> leaves_styles (create_ass_style_line c ''Default'')"
  "\<not> is_styles_header (create_ass_style_line c ''Default'')"
proof -
  obtain r where s: "create_ass_style_line c ''Default'' = ''Style: '' @ ''Default'' @ '','' @ r"
    using style_line_shape by blast
  show "prefix ''Style:'' (create_ass_style_line c ''Default'')"
    by (simp add: s)
  show "sublist ''Default'' (create_ass_style_line c ''Default'')"
    unfolding s sublist_def by blast
  show "\<not> prefix ''Format:'' (create_ass_style_line c ''Default'')"
    by (simp add: s)
  show "\<not> leaves_styles (create_ass_style_line c ''Default'')"
    by (simp add: s leaves_styles_def)
  have "\<not> py_isspace CHR ''S''" by (simp add: py_isspace_def)
  then obtain t where "py_strip (create_ass_style_line c ''Default'') = CHR ''S'' # t"
    using py_strip_first [of "CHR ''S''"] s by auto
  then show "\<not> is_styles_header (create_ass_style_line c ''Default'')"
    by (simp add: is_styles_header_def)
qed

lemma default_line_candidate: "is_default_candidate (create_ass_style_line c ''Default'')"
  by (simp add: is_default_candidate_def default_line_facts)

lemma scan_out_idem:
  "scan_out c i r (scan_out c i r ls) = scan_out c i r ls"
  by (induction ls arbitrary: i r)
     (auto simp: default_line_facts default_line_candidate scan_out_replaced)

lemma scan_replaced_scan_out:
  "scan_replaced i r (scan_out c i r ls) = scan_replaced i r ls"
  by (induction ls arbitrary: i r)
     (auto simp: default_line_facts default_line_candidate scan_replaced_True)

lemma insert_inside_rescan:
  "\<forall>l\<in>set ls. \<not> is_styles_header l \<Longrightarrow> \<not> scan_replaced True False ls \<Longrightarrow> scan_format True ls \<Longrightarrow>
   scan_out c True False (insert_after_format c True ls) = insert_after_format c True ls
   \<and> scan_replaced True False (insert_after_format c True ls)"
proof (induction ls)
  case Nil
  then show ?case by simp
next
  case (Cons l ls)
  from Cons.prems have nh: "\<not> is_styles_header l" and nhs: "\<forall>l\<in>set ls. \<not> is_styles_header l"
    by simp_all
  have stay: "\<not> leaves_styles l"
  proof
    assume "leaves_styles l"
    with Cons.prems(3) nh have "scan_format False ls" by simp
    with nhs show False by (simp add: no_header_format)
  qed
  show ?case
  proof (cases "prefix ''Format:'' l")
    case True
    with nh stay show ?thesis
      by (simp add: default_line_facts default_line_candidate scan_out_replaced scan_replaced_True)
  next
    case False
    have nc: "\<not> is_default_candidate l"
    proof
      assume "is_default_candidate l"
      with Cons.prems(2) nh stay False show False by (simp add: scan_replaced_True)
    qed
    from Cons.prems nh stay False nc have "\<not> scan_replaced True False ls" "scan_format True ls"
      by simp_all
    with Cons.IH nhs nh stay False nc show ?thesis by simp
  qed
qed

lemma insert_outside_rescan:
  "length (filter is_styles_header ls) \<le> 1 \<Longrightarrow> \<not> scan_replaced False False ls \<Longrightarrow>
   scan_format False ls \<Longrightarrow>
   scan_out c False False (insert_after_format c False ls) = insert_after_format c False ls
   \<and> scan_replaced False False (insert_after_format c False ls)"
proof (induction ls)
  case Nil
  then show ?case by simp
next
  case (Cons l ls)
  show ?case
  proof (cases "is_styles_header l")
    case True
    with Cons.prems(1) have "filter is_styles_header ls = []" by simp
    then have "\<forall>l\<in>set ls. \<not> is_styles_header l" by (simp add: filter_empty_conv)
    moreover from Cons.prems True have "\<not> scan_replaced True False ls" "scan_format True ls"
      by simp_all
    ultimately show ?thesis using True insert_inside_rescan [of ls c] by simp
  next
    case False
    with Cons show ?thesis by simp
  qed
qed

lemma patch_lines_idem:
  assumes "scan_replaced False False ls \<or> \<not> scan_format False ls
           \<or> length (filter is_styles_header ls) \<le> 1"
  shows "patch_lines c (patch_lines c ls) = patch_lines c ls"
proof (cases "scan_replaced False False ls")
  case True
  then show ?thesis
    by (simp add: patch_lines_scan scan_replaced_scan_out scan_out_idem)
next
  case nr: False
  show ?thesis
  proof (cases "scan_format False ls")
    case True
    with nr have p: "patch_lines c ls = insert_after_format c False ls"
      by (simp add: patch_lines_scan insert_default_style_0 scan_out_unreplaced)
    from assms nr True have "length (filter is_styles_header ls) \<le> 1" by simp
    with nr True show ?thesis
      unfolding p using insert_outside_rescan [of ls c] by (simp add: patch_lines_scan)
  next
    case False
    with nr have "patch_lines c ls = ls"
      by (simp add: patch_lines_scan scan_out_unreplaced)
    then show ?thesis by simp
  qed
qed

lemma set_scan_out:
  "set (scan_out c i r ls) \<subseteq> insert (create_ass_style_line c ''Default'') (set ls)"
  by (induction ls arbitrary: i r) auto

lemma set_insert_after_format:
  "set (insert_after_format c seen ls) \<subseteq> insert (create_ass_style_line c ''Default'') (set ls)"
  by (induction ls arbitrary: seen) auto

lemma set_patch_lines:
  "set (patch_lines c ls) \<subseteq> insert (create_ass_style_line c ''Default'') (set ls)"
  using set_scan_out [of c False False ls] set_insert_after_format [of c False ls]
  by (auto simp: patch_lines_scan insert_default_style_0 scan_out_unreplaced)

lemma reread_patched:
  assumes "CHR 0x0A \<notin> set (create_ass_style_line c ''Default'')"
  shows "py_split (CHR 0x0A) (apply_style_text content c)
           = patch_lines c (py_split (CHR 0x0A) content)"
proof -
  let ?ls = "py_split (CHR 0x0A) content"
  have "\<forall>l\<in>set (patch_lines c ?ls). CHR 0x0A \<notin> set l"
    using set_patch_lines [of c ?ls] assms py_split_no_sep [of _ "CHR 0x0A" content] by blast
  moreover have "patch_lines c ?ls \<noteq> []"
    by (rule patch_lines_nonempty) (rule py_split_nonempty)
  ultimately show ?thesis
    by (simp add: apply_style_text_def py_split_py_join_lines)
qed

lemma scan_out_shape:
  "scan_out c i r ls = ls
   \<or> (\<exists>k<length ls. scan_out c i r ls = ls[k := create_ass_style_line c ''Default''])"
proof (induction ls arbitrary: i r)
  case Nil
  show ?case by simp
next
  case (Cons l ls)
  show ?case
  proof (cases "\<not> is_styles_header l \<and> i \<and> \<not> leaves_styles l \<and> \<not> prefix ''Format:'' l
              \<and> is_default_candidate l \<and> \<not> r")
    case True
    then have "scan_out c i r (l # ls) = (l # ls)[0 := create_ass_style_line c ''Default'']"
      by (simp add: scan_out_replaced)
    then show ?thesis by blast
  next
    case False
    then obtain i' where s: "scan_out c i r (l # ls) = l # scan_out c i' r ls"
      by (cases "is_styles_header l") auto
    from Cons.IH [of i' r] show ?thesis
    proof
      assume "scan_out c i' r ls = ls"
      with s show ?thesis by simp
    next
      assume "\<exists>k<length ls. scan_out c i' r ls = ls[k := create_ass_style_line c ''Default'']"
      then obtain k where "k < length ls"
        "scan_out c i' r ls = ls[k := create_ass_style_line c ''Default'']" by blast
      with s have "Suc k < length (l # ls)
          \<and> scan_out c i r (l # ls) = (l # ls)[Suc k := create_ass_style_line c ''Default'']"
        by simp
      then show ?thesis by blast
    qed
  qed
qed

lemma insert_after_format_shape:
  "insert_after_format c seen ls = ls
   \<or> (\<exists>k\<le>length ls. insert_after_format c seen ls
         = take k ls @ create_ass_style_line c ''Default'' # drop k ls)"
proof (induction ls arbitrary: seen)
  case Nil
  show ?case by simp
next
  case (Cons l ls)
  show ?case
  proof (cases "prefix ''Format:'' l \<and> seen")
    case True
    then have "insert_after_format c seen (l # ls)
        = take 1 (l # ls) @ create_ass_style_line c ''Default'' # drop 1 (l # ls)"
      by simp
    moreover have "(1::nat) \<le> length (l # ls)" by simp
    ultimately show ?thesis by blast
  next
    case False
    then have s: "insert_after_format c seen (l # ls)
        = l # insert_after_format c (seen \<or> is_styles_header l) ls"
      by auto
    from Cons.IH [of "seen \<or> is_styles_header l"] show ?thesis
    proof
      assume "insert_after_format c (seen \<or> is_styles_header l) ls = ls"
      with s show ?thesis by simp
    next
      assume "\<exists>k\<le>length ls. insert_after_format c (seen \<or> is_styles_header l) ls
         = take k ls @ create_ass_style_line c ''Default'' # drop k ls"
      then obtain k where "k \<le> length ls"
        "insert_after_format c (seen \<or> is_styles_header l) ls
           = take k ls @ create_ass_style_line c ''Default'' # drop k ls" by blast
      with s have "Suc k \<le> length (l # ls) \<and> insert_after_format c seen (l # ls)
          = take (Suc k) (l # ls) @ create_ass_style_line c ''Default'' # drop (Suc k) (l # ls)"
        by simp
      then show ?thesis by blast
    qed
  qed
qed

lemma patch_lines_shape:
  "\<exists>k. patch_lines c ls = ls
      \<or> (k < length ls \<and> patch_lines c ls = ls[k := create_ass_style_line c ''Default''])
      \<or> (k \<le> length ls \<and> patch_lines c ls
            = take k ls @ create_ass_style_line c ''Default'' # drop k ls)"
proof (cases "\<not> scan_replaced False False ls \<and> scan_format False ls")
  case True
  then have "patch_lines c ls = insert_after_format c False ls"
    by (simp add: patch_lines_scan insert_default_style_0 scan_out_unreplaced)
  with insert_after_format_shape [of c False ls] show ?thesis by metis
next
  case False
  then have "patch_lines c ls = scan_out c False False ls"
    by (auto simp add: patch_lines_scan)
  with scan_out_shape [of c False False ls] show ?thesis by metis
qed

lemma scan_state_final:
  "default_style_replaced (foldl (scan_line c) initial_scan_state ls) = scan_replaced False False ls"
  "style_format_found (foldl (scan_line c) initial_scan_state ls) = scan_format False ls"
  by (simp_all add: foldl_scan_line initial_scan_state_def)


section \<open>Reading back what was written\<close>

lemma universal_newlines_keep:
  "ch \<noteq> CHR 0x0D \<Longrightarrow> universal_newlines (ch # s) = ch # universal_newlines s"
  by (cases s) auto

lemma universal_newlines_no_cr: "CHR 0x0D \<notin> set (universal_newlines s)"
  by (induction s rule: universal_newlines.induct) auto

lemma universal_newlines_id: "CHR 0x0D \<notin> set s \<Longrightarrow> universal_newlines s = s"
  by (induction s) (auto simp: universal_newlines_keep)

lemma read_back_written:
  "CHR 0x0D \<notin> set s \<Longrightarrow> universal_newlines (write_newlines os s) = s"
proof (cases os)
  case Posix
  assume "CHR 0x0D \<notin> set s"
  with Posix show ?thesis by (simp add: universal_newlines_id)
next
  case Windows
  assume "CHR 0x0D \<notin> set s"
  then have "universal_newlines (write_newlines Windows s) = s"
    by (induction s) (auto simp: universal_newlines_keep)
  with Windows show ?thesis by simp
qed

lemma py_split_chars: "l \<in> set (py_split c s) \<Longrightarrow> set l \<subseteq> set s"
proof (induction s arbitrary: l)
  case Nil
  then show ?case by simp
next
  case (Cons x xs)
  obtain l0 ls where sp: "py_split c xs = l0 # ls"
    using py_split_nonempty [of c xs] by (cases "py_split c xs") auto
  have l0: "set l0 \<subseteq> set xs" and ls: "\<And>m. m \<in> set ls \<Longrightarrow> set m \<subseteq> set xs"
    using Cons.IH sp by simp_all
  show ?case
  proof (cases "x = c")
    case True
    with Cons.prems sp have "l = [] \<or> l = l0 \<or> l \<in> set ls" by simp
    with l0 ls show ?thesis by auto
  next
    case False
    with Cons.prems sp have "l = x # l0 \<or> l \<in> set ls" by simp
    with l0 ls show ?thesis by auto
  qed
qed

lemma py_join_chars: "set (py_join sep ls) \<subseteq> set sep \<union> \<Union> (set ` set ls)"
  by (induction sep ls rule: py_join.induct) auto

lemma patched_text_no_cr:
  assumes "CHR 0x0D \<notin> set content" and "CHR 0x0D \<notin> set (create_ass_style_line c ''Default'')"
  shows "CHR 0x0D \<notin> set (apply_style_text content c)"
proof
  assume "CHR 0x0D \<in> set (apply_style_text content c)"
  then have "CHR 0x0D \<in> set [CHR 0x0A]
      \<union> \<Union> (set ` set (patch_lines c (py_split (CHR 0x0A) content)))"
    using py_join_chars [of "[CHR 0x0A]" "patch_lines c (py_split (CHR 0x0A) content)"]
    by (auto simp: apply_style_text_def)
  then obtain l where l: "l \<in> set (patch_lines c (py_split (CHR 0x0A) content))"
    and cr: "CHR 0x0D \<in> set l" by auto
  from l set_patch_lines [of c "py_split (CHR 0x0A) content"]
  have "l = create_ass_style_line c ''Default'' \<or> l \<in> set (py_split (CHR 0x0A) content)"
    by auto
  then show False
  proof
    assume "l = create_ass_style_line c ''Default''"
    with cr assms(2) show False by simp
  next
    assume "l \<in> set (py_split (CHR 0x0A) content)"
    then have "set l \<subseteq> set content" by (rule py_split_chars)
    with cr assms(1) show False by auto
  qed
qed

lemma apply_style_text_idem:
  assumes "CHR 0x0A \<notin> set (create_ass_style_line c ''Default'')"
    and "default_style_replaced (foldl (scan_line c) initial_scan_state (py_split (CHR 0x0A) content))
       \<or> \<not> style_format_found (foldl (scan_line c) initial_scan_state (py_split (CHR 0x0A) content))
       \<or> length (filter (\<lambda>l. py_strip l = ''[V4+ Styles]'') (py_split (CHR 0x0A) content)) \<le> 1"
  shows "apply_style_text (apply_style_text content c) c = apply_style_text content c"
proof -
  have "apply_style_text (apply_style_text content c) c
        = py_join [CHR 0x0A] (patch_lines c (patch_lines c (py_split (CHR 0x0A) content)))"
    using reread_patched [OF assms(1)] by (simp add: apply_style_text_def)
  also have "\<dots> = py_join [CHR 0x0A] (patch_lines c (py_split (CHR 0x0A) content))"
    using assms(2) patch_lines_idem [of "py_split (CHR 0x0A) content" c]
    by (simp add: is_styles_header_def [abs_def] scan_state_final)
  finally show ?thesis by (simp add: apply_style_text_def)
qed


section \<open>Properties of the style patcher\<close>

text \<open>
  Claim C1. The claim reads: the first \<open>Style:\<close> line of the styles section whose name
  field is \<open>Default\<close> is the one replaced by the synthesized line. The code selects the
  line by the test \<open>'Default' in line\<close>, so a style whose name or font merely contains
  \<open>Default\<close> is taken instead. In the document below the styles section holds the styles
  \<open>Default-Alt\<close> and \<open>Default\<close>, in this order: the patcher overwrites \<open>Default-Alt\<close>
  and leaves the \<open>Default\<close> line as it was.
\<close>

theorem default_alt_style_overwritten:
  "map style_name (py_split (CHR 0x0A) default_alt_doc)
     = [None, None, Some ''Default-Alt'', Some ''Default'']
   \<and> apply_style_text default_alt_doc [] =
      ''[V4+ Styles]\<newline>Format: Name, Fontname, Fontsize\<newline>Style: Default,Arial,20,&H00FFFFFF,&H000000FF,&H00000000,&H80000000,0,0,0,0,100,100,0,0,1,2,0,2,10,10,10,1\<newline>Style: Default,Verdana,18''"
  by code_simp

text \<open>
  Claim C3. Every line outside the styles section occurs unchanged in the patched text,
  in the same order: these are the lines that the main loop meets while \<open>in_v4_styles\<close>
  is false, the bracketed line that closes the section, and the styles headers
  themselves. So the whole \<open>[Events]\<close> block is kept. And a document none of whose lines
  is a styles header (a line that reads \<open>[V4+ Styles]\<close> once stripped) comes back
  unchanged.
\<close>

theorem lines_outside_styles_preserved:
  "subseq (outside_lines False (py_split (CHR 0x0A) content))
          (py_split (CHR 0x0A) (apply_style_text content c))
   \<and> ((\<forall>l\<in>set (py_split (CHR 0x0A) content). py_strip l \<noteq> ''[V4+ Styles]'')
        \<longrightarrow> apply_style_text content c = content)"
proof
  let ?ls = "py_split (CHR 0x0A) content"
  have ne: "patch_lines c ?ls \<noteq> []"
    by (rule patch_lines_nonempty) (rule py_split_nonempty)
  have "subseq (outside_lines False ?ls) (patch_lines c ?ls)"
    by (rule subseq_outside_patch_lines)
  moreover have "\<forall>l\<in>set (outside_lines False ?ls). py_split (CHR 0x0A) l = [l]"
    using outside_lines_subset [of False ?ls] by (auto dest!: py_split_no_sep intro: py_split_line)
  ultimately have
    "subseq (outside_lines False ?ls) (concat (map (py_split (CHR 0x0A)) (patch_lines c ?ls)))"
    by (rule subseq_concat_split)
  then show "subseq (outside_lines False ?ls) (py_split (CHR 0x0A) (apply_style_text content c))"
    using ne by (simp add: apply_style_text_def py_split_py_join)
next
  show "(\<forall>l\<in>set (py_split (CHR 0x0A) content). py_strip l \<noteq> ''[V4+ Styles]'')
        \<longrightarrow> apply_style_text content c = content"
    by (simp add: apply_style_text_def no_header_patch_lines is_styles_header_def py_join_py_split)
qed

theorem lines_outside_styles_preserved_witness:
  "list_all (\<lambda>l. py_strip l \<noteq> ''[V4+ Styles]'') (py_split (CHR 0x0A) plain_doc)
   \<and> apply_style_text plain_doc verdana_config = plain_doc
   \<and> subseq (outside_lines False (py_split (CHR 0x0A) plain_doc))
            (py_split (CHR 0x0A) (apply_style_text plain_doc verdana_config))"
proof -
  have h: "list_all (\<lambda>l. py_strip l \<noteq> ''[V4+ Styles]'') (py_split (CHR 0x0A) plain_doc)"
    by code_simp
  then have "\<forall>l\<in>set (py_split (CHR 0x0A) plain_doc). py_strip l \<noteq> ''[V4+ Styles]''"
    by (simp add: list_all_iff)
  with h lines_outside_styles_preserved [of plain_doc verdana_config] show ?thesis by blast
qed

text \<open>
  Claim C5, as amended. The two applications communicate through the file, so the second
  one patches what the first one wrote, as it is read back. Let the synthesized line
  contain neither a line feed nor a carriage return, and let the document (the text read
  from the file) be one in which a Default line is replaced, or no \<open>Format:\<close> line is
  seen in the styles section, or there is at most one styles header line. Then, the
  writes succeeding, the method applied twice returns the same flag and leaves the same
  file as the method applied once; and on the text, patching the patched document
  changes nothing.
\<close>

theorem apply_style_idempotent:
  assumes "CHR 0x0A \<notin> set (create_ass_style_line c ''Default'')"
    and "CHR 0x0D \<notin> set (create_ass_style_line c ''Default'')"
    and "default_style_replaced
           (foldl (scan_line c) initial_scan_state (py_split (CHR 0x0A) (universal_newlines stored)))
       \<or> \<not> style_format_found
           (foldl (scan_line c) initial_scan_state (py_split (CHR 0x0A) (universal_newlines stored)))
       \<or> length (filter (\<lambda>l. py_strip l = ''[V4+ Styles]'')
             (py_split (CHR 0x0A) (universal_newlines stored))) \<le> 1"
  shows "apply_styling_from_config os Written
           (snd (apply_styling_from_config os Written (Some stored) c)) c
         = apply_styling_from_config os Written (Some stored) c
    \<and> apply_styling_from_config os Written (Some stored) c
         = (True, Some (write_newlines os (apply_style_text (universal_newlines stored) c)))
    \<and> apply_style_text (apply_style_text (universal_newlines stored) c) c
         = apply_style_text (universal_newlines stored) c"
proof -
  let ?d = "universal_newlines stored"
  have t: "apply_style_text (apply_style_text ?d c) c = apply_style_text ?d c"
    using assms(1,3) by (rule apply_style_text_idem)
  have "CHR 0x0D \<notin> set (apply_style_text ?d c)"
    using universal_newlines_no_cr assms(2) by (rule patched_text_no_cr)
  then have r: "universal_newlines (write_newlines os (apply_style_text ?d c)) = apply_style_text ?d c"
    by (rule read_back_written)
  show ?thesis
    by (simp add: apply_styling_from_config_def Let_def r t)
qed

theorem apply_style_idempotent_witness:
  "CHR 0x0A \<notin> set (create_ass_style_line verdana_config ''Default'')
   \<and> CHR 0x0D \<notin> set (create_ass_style_line verdana_config ''Default'')
   \<and> length (filter (\<lambda>l. py_strip l = ''[V4+ Styles]'')
        (py_split (CHR 0x0A) (universal_newlines crlf_file))) \<le> 1
   \<and> apply_styling_from_config Windows Written
        (snd (apply_styling_from_config Windows Written (Some crlf_file) verdana_config))
        verdana_config
       = apply_styling_from_config Windows Written (Some crlf_file) verdana_config"
proof -
  have a: "CHR 0x0A \<notin> set (create_ass_style_line verdana_config ''Default'')"
    by code_simp
  have b: "CHR 0x0D \<notin> set (create_ass_style_line verdana_config ''Default'')"
    by code_simp
  have c: "length (filter (\<lambda>l. py_strip l = ''[V4+ Styles]'')
        (py_split (CHR 0x0A) (universal_newlines crlf_file))) \<le> 1"
    by code_simp
  from c have d: "default_style_replaced
           (foldl (scan_line verdana_config) initial_scan_state
             (py_split (CHR 0x0A) (universal_newlines crlf_file)))
       \<or> \<not> style_format_found
           (foldl (scan_line verdana_config) initial_scan_state
             (py_split (CHR 0x0A) (universal_newlines crlf_file)))
       \<or> length (filter (\<lambda>l. py_strip l = ''[V4+ Styles]'')
             (py_split (CHR 0x0A) (universal_newlines crlf_file))) \<le> 1"
    by blast
  from a b c apply_style_idempotent [OF a b d, of Windows] show ?thesis by blast
qed

text \<open>
  The claim as stated fails, on the text and through the file alike: with a font name
  that contains line feeds, the second application reads the synthesized line back as
  several lines and patches only the first.
\<close>

theorem apply_style_not_idempotent:
  "apply_style_text (apply_style_text two_line_doc multiline_font_config) multiline_font_config
     \<noteq> apply_style_text two_line_doc multiline_font_config
   \<and> apply_styling_from_config Posix Written
        (snd (apply_styling_from_config Posix Written (Some two_line_doc) multiline_font_config))
        multiline_font_config
       \<noteq> apply_styling_from_config Posix Written (Some two_line_doc) multiline_font_config"
  by code_simp

text \<open>
  The other two hypotheses are needed as well. A carriage return in a value is read back
  as a line feed, on either platform. And with two styles headers the insertion pass can
  put the line outside the styles section, where a second application does not find it.
\<close>

lemma carriage_return_not_idempotent:
  "CHR 0x0A \<notin> set (create_ass_style_line carriage_return_config ''Default'')
   \<and> apply_styling_from_config Posix Written
        (snd (apply_styling_from_config Posix Written (Some two_line_doc) carriage_return_config))
        carriage_return_config
       \<noteq> apply_styling_from_config Posix Written (Some two_line_doc) carriage_return_config
   \<and> apply_styling_from_config Windows Written
        (snd (apply_styling_from_config Windows Written (Some two_line_doc) carriage_return_config))
        carriage_return_config
       \<noteq> apply_styling_from_config Windows Written (Some two_line_doc) carriage_return_config"
  by code_simp

lemma two_headers_not_idempotent:
  "apply_style_text (apply_style_text two_headers_doc []) [] \<noteq> apply_style_text two_headers_doc []
   \<and> apply_styling_from_config Posix Written
        (snd (apply_styling_from_config Posix Written (Some two_headers_doc) [])) []
       \<noteq> apply_styling_from_config Posix Written (Some two_headers_doc) []"
  by code_simp

text \<open>
  Claim C6. The claim reads: when the styles section has a \<open>Format:\<close> line and no style
  named \<open>Default\<close>, the synthesized line is inserted right after the \<open>Format:\<close> line. In
  the document below no style is named \<open>Default\<close>, but the style \<open>Sign\<close> uses the font
  \<open>Default Sans\<close>: the patcher overwrites the \<open>Sign\<close> line and inserts nothing after the
  \<open>Format:\<close> line.
\<close>

theorem default_font_style_overwritten:
  "map style_name (py_split (CHR 0x0A) default_font_doc)
     = [None, None, Some ''Title'', Some ''Sign'']
   \<and> apply_style_text default_font_doc [] =
      ''[V4+ Styles]\<newline>Format: Name, Fontname, Fontsize\<newline>Style: Title,Arial,30\<newline>Style: Default,Arial,20,&H00FFFFFF,&H000000FF,&H00000000,&H80000000,0,0,0,0,100,100,0,0,1,2,0,2,10,10,10,1''"
  by code_simp

text \<open>
  Claim C10, as amended. The list of lines that the patcher joins into its output has as
  many entries as the input has lines, or exactly one more, the latter exactly when no
  line was replaced and a \<open>Format:\<close> line was seen in the styles section; it is the list of
  input lines, or that list with one entry overwritten by the synthesized line, or that
  list with the synthesized line inserted, so no input line is dropped. When the
  synthesized line contains no line feed, this list is exactly the list of lines of the
  output text, which then has as many lines as the input or exactly one more.
\<close>

theorem patched_line_count:
  "let lines = py_split (CHR 0x0A) content;
       st = foldl (scan_line c) initial_scan_state lines;
       out = patch_lines c lines
   in (length out = length lines \<or> length out = length lines + 1)
    \<and> (length out = length lines + 1
         \<longleftrightarrow> \<not> default_style_replaced st \<and> style_format_found st)
    \<and> (\<exists>k. out = lines
          \<or> (k < length lines \<and> out = lines[k := create_ass_style_line c ''Default''])
          \<or> (k \<le> length lines \<and> out
               = take k lines @ create_ass_style_line c ''Default'' # drop k lines))
    \<and> apply_style_text content c = py_join [CHR 0x0A] out
    \<and> (CHR 0x0A \<notin> set (create_ass_style_line c ''Default'')
         \<longrightarrow> py_split (CHR 0x0A) (apply_style_text content c) = out)"
  unfolding Let_def scan_state_final
  using patch_lines_shape [of c "py_split (CHR 0x0A) content"] reread_patched [of c content]
  by (simp add: length_patch_lines apply_style_text_def)

theorem patched_line_count_witness:
  "CHR 0x0A \<notin> set (create_ass_style_line verdana_config ''Default'')
   \<and> py_split (CHR 0x0A) (apply_style_text styled_doc verdana_config)
       = patch_lines verdana_config (py_split (CHR 0x0A) styled_doc)
   \<and> length (py_split (CHR 0x0A) (apply_style_text styled_doc verdana_config))
       = length (py_split (CHR 0x0A) styled_doc)"
proof -
  have a: "CHR 0x0A \<notin> set (create_ass_style_line verdana_config ''Default'')"
    by code_simp
  have b: "default_style_replaced
      (foldl (scan_line verdana_config) initial_scan_state (py_split (CHR 0x0A) styled_doc))"
    by code_simp
  from patched_line_count [of styled_doc verdana_config] b a show ?thesis
    unfolding Let_def by auto
qed

text \<open>
  The claim as stated fails: a font name with two line feeds makes the patched text two
  lines longer than the input.
\<close>

theorem line_count_grows_by_two:
  "length (py_split (CHR 0x0A) two_line_doc) = 2
   \<and> length (py_split (CHR 0x0A) (apply_style_text two_line_doc multiline_font_config)) = 4"
  by code_simp



section \<open>Properties of format detection\<close>

lemma match_atoms_iff:
  "match_atoms as s = (\<exists>m r. s = m @ r \<and> list_all2 atom_matches as m)"
proof (induction as s rule: match_atoms.induct)
  case (1 s)
  show ?case by simp
next
  case (2 a as)
  show ?case by simp
next
  case (3 a as ch s)
  show ?case
  proof
    assume "match_atoms (a # as) (ch # s)"
    with 3 obtain m r where "atom_matches a ch" "s = m @ r" "list_all2 atom_matches as m"
      by auto
    then have "ch # s = (ch # m) @ r \<and> list_all2 atom_matches (a # as) (ch # m)" by simp
    then show "\<exists>m r. ch # s = m @ r \<and> list_all2 atom_matches (a # as) m" by blast
  next
    assume "\<exists>m r. ch # s = m @ r \<and> list_all2 atom_matches (a # as) m"
    then obtain m r where mr: "ch # s = m @ r" "list_all2 atom_matches (a # as) m" by blast
    then obtain x m' where m: "m = x # m'" "atom_matches a x" "list_all2 atom_matches as m'"
      by (auto simp: list_all2_Cons1)
    with mr have "x = ch" "s = m' @ r" by simp_all
    with m 3 show "match_atoms (a # as) (ch # s)" by auto
  qed
qed

lemma match_digits_then_iff:
  "match_digits_then as s =
     (\<exists>ds r. s = ds @ r \<and> ds \<noteq> [] \<and> list_all is_digit ds \<and> match_atoms as r)"
proof (induction s)
  case Nil
  show ?case by simp
next
  case (Cons ch s)
  show ?case
  proof
    assume "match_digits_then as (ch # s)"
    then have d: "is_digit ch" and dj: "match_atoms as s \<or> match_digits_then as s" by simp_all
    from dj show "\<exists>ds r. ch # s = ds @ r \<and> ds \<noteq> [] \<and> list_all is_digit ds \<and> match_atoms as r"
    proof
      assume "match_atoms as s"
      with d have "ch # s = [ch] @ s \<and> [ch] \<noteq> [] \<and> list_all is_digit [ch] \<and> match_atoms as s"
        by simp
      then show ?thesis by blast
    next
      assume "match_digits_then as s"
      with Cons obtain ds r where "s = ds @ r" "list_all is_digit ds" "match_atoms as r" by blast
      with d have "ch # s = (ch # ds) @ r \<and> ch # ds \<noteq> [] \<and> list_all is_digit (ch # ds)
          \<and> match_atoms as r" by simp
      then show ?thesis by blast
    qed
  next
    assume "\<exists>ds r. ch # s = ds @ r \<and> ds \<noteq> [] \<and> list_all is_digit ds \<and> match_atoms as r"
    then obtain ds r where h: "ch # s = ds @ r" "ds \<noteq> []" "list_all is_digit ds" "match_atoms as r"
      by blast
    then obtain ds' where ds: "ds = ch # ds'" by (cases ds) auto
    with h have s: "s = ds' @ r" and d: "is_digit ch" and ds': "list_all is_digit ds'" by simp_all
    show "match_digits_then as (ch # s)"
    proof (cases "ds' = []")
      case True
      with s h d show ?thesis by simp
    next
      case False
      with s ds' h have "match_digits_then as s" using Cons by blast
      with d show ?thesis by simp
    qed
  qed
qed

lemma re_search_srt_iff:
  "re_search_srt s = (\<exists>before r. s = before @ r \<and> match_digits_then srt_tail r)"
proof (induction s)
  case Nil
  show ?case by simp
next
  case (Cons ch s)
  show ?case
  proof
    assume "re_search_srt (ch # s)"
    then have "match_digits_then srt_tail (ch # s) \<or> re_search_srt s" by simp
    then show "\<exists>before r. ch # s = before @ r \<and> match_digits_then srt_tail r"
    proof
      assume "match_digits_then srt_tail (ch # s)"
      then have "ch # s = [] @ (ch # s) \<and> match_digits_then srt_tail (ch # s)" by simp
      then show ?thesis by blast
    next
      assume "re_search_srt s"
      with Cons obtain b r where "s = b @ r" "match_digits_then srt_tail r" by blast
      then have "ch # s = (ch # b) @ r \<and> match_digits_then srt_tail r" by simp
      then show ?thesis by blast
    qed
  next
    assume "\<exists>before r. ch # s = before @ r \<and> match_digits_then srt_tail r"
    then obtain b r where h: "ch # s = b @ r" "match_digits_then srt_tail r" by blast
    show "re_search_srt (ch # s)"
    proof (cases b)
      case Nil
      with h have "match_digits_then srt_tail (ch # s)" by simp
      then show ?thesis by simp
    next
      case (Cons x b')
      with h have "s = b' @ r" by simp
      with h have "re_search_srt s" using Cons.IH by blast
      then show ?thesis by simp
    qed
  qed
qed

lemma digits_atoms:
  "list_all2 atom_matches (replicate n Digit) ds = (length ds = n \<and> list_all is_digit ds)"
proof (induction n arbitrary: ds)
  case 0
  show ?case by auto
next
  case (Suc n)
  show ?case by (cases ds) (auto simp: Suc)
qed

lemma lit_atoms: "list_all2 atom_matches (map Lit l) m = (m = l)"
proof (induction l arbitrary: m)
  case Nil
  show ?case by auto
next
  case (Cons x l)
  show ?case by (cases m) (auto simp: Cons)
qed

lemma digits_then:
  "list_all2 atom_matches (replicate n Digit @ as) s
     = (\<exists>ds r. s = ds @ r \<and> length ds = n \<and> list_all is_digit ds \<and> list_all2 atom_matches as r)"
proof
  assume "list_all2 atom_matches (replicate n Digit @ as) s"
  then obtain us vs where "s = us @ vs" "list_all2 atom_matches (replicate n Digit) us"
    "list_all2 atom_matches as vs"
    by (auto simp: list_all2_append1)
  then show "\<exists>ds r. s = ds @ r \<and> length ds = n \<and> list_all is_digit ds \<and> list_all2 atom_matches as r"
    by (auto simp: digits_atoms)
next
  assume "\<exists>ds r. s = ds @ r \<and> length ds = n \<and> list_all is_digit ds \<and> list_all2 atom_matches as r"
  then obtain ds r where "s = ds @ r" "list_all2 atom_matches (replicate n Digit) ds"
    "list_all2 atom_matches as r"
    by (auto simp: digits_atoms)
  then show "list_all2 atom_matches (replicate n Digit @ as) s"
    by (auto intro: list_all2_appendI)
qed

lemma lit_then:
  "list_all2 atom_matches (map Lit l @ as) s = (\<exists>r. s = l @ r \<and> list_all2 atom_matches as r)"
proof
  assume "list_all2 atom_matches (map Lit l @ as) s"
  then obtain us vs where "s = us @ vs" "list_all2 atom_matches (map Lit l) us"
    "list_all2 atom_matches as vs"
    by (auto simp: list_all2_append1)
  then show "\<exists>r. s = l @ r \<and> list_all2 atom_matches as r"
    by (auto simp: lit_atoms)
next
  assume "\<exists>r. s = l @ r \<and> list_all2 atom_matches as r"
  then obtain r where "s = l @ r" "list_all2 atom_matches (map Lit l) l"
    "list_all2 atom_matches as r"
    by (auto simp: lit_atoms)
  then show "list_all2 atom_matches (map Lit l @ as) s"
    by (auto intro: list_all2_appendI)
qed

lemma digitsI:
  "length ds = n \<Longrightarrow> list_all is_digit ds \<Longrightarrow> list_all2 atom_matches as r \<Longrightarrow>
   list_all2 atom_matches (replicate n Digit @ as) (ds @ r)"
  unfolding digits_then by blast

lemma litI:
  "list_all2 atom_matches as r \<Longrightarrow> list_all2 atom_matches (map Lit l @ as) (l @ r)"
  unfolding lit_then by blast

lemma timestamp_then:
  "list_all2 atom_matches (timestamp_atoms @ as) s
     = (\<exists>t r. s = t @ r \<and> is_timestamp t \<and> list_all2 atom_matches as r)"
proof
  assume "list_all2 atom_matches (timestamp_atoms @ as) s"
  then obtain hh mm ss mmm r where
    "s = hh @ '':'' @ mm @ '':'' @ ss @ '','' @ mmm @ r"
    "length hh = 2" "length mm = 2" "length ss = 2" "length mmm = 3"
    "list_all is_digit hh" "list_all is_digit mm" "list_all is_digit ss" "list_all is_digit mmm"
    "list_all2 atom_matches as r"
    unfolding timestamp_atoms_def append_assoc digits_then lit_then by blast
  then have "s = (hh @ '':'' @ mm @ '':'' @ ss @ '','' @ mmm) @ r
      \<and> is_timestamp (hh @ '':'' @ mm @ '':'' @ ss @ '','' @ mmm) \<and> list_all2 atom_matches as r"
    unfolding is_timestamp_def by auto
  then show "\<exists>t r. s = t @ r \<and> is_timestamp t \<and> list_all2 atom_matches as r" by blast
next
  assume "\<exists>t r. s = t @ r \<and> is_timestamp t \<and> list_all2 atom_matches as r"
  then obtain t r where tr: "s = t @ r" "is_timestamp t" "list_all2 atom_matches as r" by blast
  then obtain hh mm ss mmm where t:
    "t = hh @ '':'' @ mm @ '':'' @ ss @ '','' @ mmm"
    and len: "length hh = 2" "length mm = 2" "length ss = 2" "length mmm = 3"
    and dig: "list_all is_digit hh" "list_all is_digit mm" "list_all is_digit ss"
      "list_all is_digit mmm"
    unfolding is_timestamp_def by blast
  show "list_all2 atom_matches (timestamp_atoms @ as) s"
    unfolding tr(1) t timestamp_atoms_def append_assoc
    by (intro digitsI litI len dig tr(3))
qed

lemma srt_tail_iff:
  "match_atoms srt_tail s
     = (\<exists>t1 t2 after. s = [CHR 0x0A] @ t1 @ '' --> '' @ t2 @ after
          \<and> is_timestamp t1 \<and> is_timestamp t2)"
proof -
  have st: "srt_tail = map Lit [CHR 0x0A] @ timestamp_atoms @ map Lit '' --> '' @ timestamp_atoms @ []"
    by (simp add: srt_tail_def)
  have m: "\<And>m. list_all2 atom_matches srt_tail m
      = (\<exists>t1 t2. m = [CHR 0x0A] @ t1 @ '' --> '' @ t2 \<and> is_timestamp t1 \<and> is_timestamp t2)"
    unfolding st lit_then timestamp_then by auto
  show ?thesis
    unfolding match_atoms_iff m
  proof
    assume "\<exists>m r. s = m @ r
        \<and> (\<exists>t1 t2. m = [CHR 0x0A] @ t1 @ '' --> '' @ t2 \<and> is_timestamp t1 \<and> is_timestamp t2)"
    then obtain m r t1 t2 where "s = m @ r" "m = [CHR 0x0A] @ t1 @ '' --> '' @ t2"
      "is_timestamp t1" "is_timestamp t2" by blast
    then have "s = [CHR 0x0A] @ t1 @ '' --> '' @ t2 @ r \<and> is_timestamp t1 \<and> is_timestamp t2"
      by (simp only: append_assoc)
    then show "\<exists>t1 t2 after. s = [CHR 0x0A] @ t1 @ '' --> '' @ t2 @ after
          \<and> is_timestamp t1 \<and> is_timestamp t2" by blast
  next
    assume "\<exists>t1 t2 after. s = [CHR 0x0A] @ t1 @ '' --> '' @ t2 @ after
          \<and> is_timestamp t1 \<and> is_timestamp t2"
    then obtain t1 t2 r where "s = [CHR 0x0A] @ t1 @ '' --> '' @ t2 @ r"
      "is_timestamp t1" "is_timestamp t2" by blast
    then have "s = ([CHR 0x0A] @ t1 @ '' --> '' @ t2) @ r
        \<and> [CHR 0x0A] @ t1 @ '' --> '' @ t2 = [CHR 0x0A] @ t1 @ '' --> '' @ t2
        \<and> is_timestamp t1 \<and> is_timestamp t2"
      by (simp only: append_assoc)
    then show "\<exists>m r. s = m @ r
        \<and> (\<exists>t1 t2. m = [CHR 0x0A] @ t1 @ '' --> '' @ t2 \<and> is_timestamp t1 \<and> is_timestamp t2)"
      by blast
  qed
qed

lemma re_search_srt_spec: "re_search_srt content = has_srt_block content"
  unfolding re_search_srt_iff match_digits_then_iff srt_tail_iff has_srt_block_def
proof
  assume "\<exists>before r. content = before @ r \<and>
      (\<exists>ds ra. r = ds @ ra \<and> ds \<noteq> [] \<and> list_all is_digit ds \<and>
         (\<exists>t1 t2 after. ra = [CHR 0x0A] @ t1 @ '' --> '' @ t2 @ after
            \<and> is_timestamp t1 \<and> is_timestamp t2))"
  then obtain before r ds ra t1 t2 after where
    "content = before @ r" "r = ds @ ra" "ds \<noteq> []" "list_all is_digit ds"
    "ra = [CHR 0x0A] @ t1 @ '' --> '' @ t2 @ after" "is_timestamp t1" "is_timestamp t2"
    by blast
  then have "content = before @ ds @ [CHR 0x0A] @ t1 @ '' --> '' @ t2 @ after
      \<and> ds \<noteq> [] \<and> list_all is_digit ds \<and> is_timestamp t1 \<and> is_timestamp t2"
    by simp
  then show "\<exists>before digits t1 t2 after.
      content = before @ digits @ [CHR 0x0A] @ t1 @ '' --> '' @ t2 @ after
      \<and> digits \<noteq> [] \<and> list_all is_digit digits \<and> is_timestamp t1 \<and> is_timestamp t2"
    by blast
next
  assume "\<exists>before digits t1 t2 after.
      content = before @ digits @ [CHR 0x0A] @ t1 @ '' --> '' @ t2 @ after
      \<and> digits \<noteq> [] \<and> list_all is_digit digits \<and> is_timestamp t1 \<and> is_timestamp t2"
  then obtain before ds t1 t2 after where
    "content = before @ ds @ [CHR 0x0A] @ t1 @ '' --> '' @ t2 @ after"
    "ds \<noteq> []" "list_all is_digit ds" "is_timestamp t1" "is_timestamp t2"
    by blast
  then have "content = before @ (ds @ [CHR 0x0A] @ t1 @ '' --> '' @ t2 @ after)
      \<and> ds @ [CHR 0x0A] @ t1 @ '' --> '' @ t2 @ after = ds @ ([CHR 0x0A] @ t1 @ '' --> '' @ t2 @ after)
      \<and> ds \<noteq> [] \<and> list_all is_digit ds
      \<and> [CHR 0x0A] @ t1 @ '' --> '' @ t2 @ after = [CHR 0x0A] @ t1 @ '' --> '' @ t2 @ after
      \<and> is_timestamp t1 \<and> is_timestamp t2"
    by simp
  then show "\<exists>before r. content = before @ r \<and>
      (\<exists>ds ra. r = ds @ ra \<and> ds \<noteq> [] \<and> list_all is_digit ds \<and>
         (\<exists>t1 t2 after. ra = [CHR 0x0A] @ t1 @ '' --> '' @ t2 @ after
            \<and> is_timestamp t1 \<and> is_timestamp t2))"
    by blast
qed

text \<open>
  Claim C7. The detected format is \<open>ass\<close> whenever \<open>[Script Info]\<close> occurs anywhere in
  the content, otherwise \<open>vtt\<close> when the stripped content starts with \<open>WEBVTT\<close>, otherwise
  \<open>srt\<close> when the SRT pattern occurs anywhere, otherwise \<open>unknown\<close> (also when the file
  cannot be read); in particular, content with both \<open>[Script Info]\<close> and an SRT pattern
  is \<open>ass\<close>.
\<close>

theorem detect_subtitle_format_priority:
  "detect_subtitle_format file =
     (case file of
        None \<Rightarrow> ''unknown''
      | Some content \<Rightarrow>
          if (\<exists>before after. content = before @ ''[Script Info]'' @ after) then ''ass''
          else if prefix ''WEBVTT'' (py_strip content) then ''vtt''
          else if has_srt_block content then ''srt''
          else ''unknown'')
   \<and> ((\<exists>before after. content = before @ ''[Script Info]'' @ after) \<and> has_srt_block content
        \<longrightarrow> detect_subtitle_format (Some content) = ''ass'')"
  by (auto simp: detect_subtitle_format_def re_search_srt_spec sublist_def split: option.splits)

theorem detect_subtitle_format_priority_witness:
  "(\<exists>before after. ass_with_srt_doc = before @ ''[Script Info]'' @ after)
   \<and> has_srt_block ass_with_srt_doc
   \<and> detect_subtitle_format (Some ass_with_srt_doc) = ''ass''"
proof -
  have "sublist ''[Script Info]'' ass_with_srt_doc"
    by code_simp
  then have a: "\<exists>before after. ass_with_srt_doc = before @ ''[Script Info]'' @ after"
    by (simp add: sublist_def)
  have "re_search_srt ass_with_srt_doc"
    by code_simp
  then have b: "has_srt_block ass_with_srt_doc"
    by (simp add: re_search_srt_spec)
  from a b detect_subtitle_format_priority [of "Some ass_with_srt_doc" ass_with_srt_doc]
  show ?thesis by blast
qed


section \<open>Properties of the format dispatcher\<close>

lemma py_lower_char_fixes:
  "ch \<in> {CHR ''.'', CHR ''/'', CHR 0x5C} \<Longrightarrow> (py_lower_char x = ch) = (x = ch)"
proof -
  assume ch: "ch \<in> {CHR ''.'', CHR ''/'', CHR 0x5C}"
  show ?thesis
  proof (cases "(65 \<le> (of_char x :: nat) \<and> (of_char x :: nat) \<le> 90)
      \<or> (192 \<le> (of_char x :: nat) \<and> (of_char x :: nat) \<le> 222 \<and> (of_char x :: nat) \<noteq> 215)")
    case False
    then show ?thesis by (auto simp: py_lower_char_def Let_def)
  next
    case True
    then have l: "py_lower_char x = char_of ((of_char x :: nat) + 32)"
      by (simp add: py_lower_char_def Let_def)
    have "(of_char (py_lower_char x) :: nat) = (of_char x + 32) mod 256"
      unfolding l by simp
    with True have v: "(of_char (py_lower_char x) :: nat) = of_char x + 32" by auto
    have "py_lower_char x \<noteq> ch"
    proof
      assume "py_lower_char x = ch"
      with v have "(of_char ch :: nat) = of_char x + 32" by simp
      with ch True show False by auto
    qed
    moreover have "x \<noteq> ch"
      using ch True by auto
    ultimately show ?thesis by simp
  qed
qed

lemma rfind_map:
  assumes "\<And>x. (f x = ch) = (x = ch)"
  shows "rfind ch (map f p) = rfind ch p"
proof -
  have "(\<lambda>x. x \<noteq> ch) \<circ> f = (\<lambda>x. x \<noteq> ch)"
    using assms by (auto simp: fun_eq_iff)
  then have "length (takeWhile (\<lambda>x. x \<noteq> ch) (rev (map f p)))
      = length (takeWhile (\<lambda>x. x \<noteq> ch) (rev p))"
    by (simp add: rev_map takeWhile_map)
  moreover have "(ch \<in> set (map f p)) = (ch \<in> set p)"
  proof
    assume "ch \<in> set (map f p)"
    then obtain x where "x \<in> set p" "f x = ch" by auto
    with assms show "ch \<in> set p" by simp
  next
    assume "ch \<in> set p"
    moreover have "f ch = ch" using assms by simp
    ultimately show "ch \<in> set (map f p)" by force
  qed
  ultimately show ?thesis by (simp add: rfind_def)
qed

lemma length_takeWhile_member:
  "x \<in> set xs \<Longrightarrow> length (takeWhile (\<lambda>y. y \<noteq> x) xs) < length xs"
  by (induction xs) auto

lemma rfind_bounds: "- 1 \<le> rfind ch p \<and> rfind ch p < int (length p)"
proof (cases "ch \<in> set p")
  case False
  then show ?thesis by (simp add: rfind_def)
next
  case True
  then have "ch \<in> set (rev p)" by simp
  then have "length (takeWhile (\<lambda>x. x \<noteq> ch) (rev p)) < length (rev p)"
    by (rule length_takeWhile_member)
  with True show ?thesis by (simp add: rfind_def)
qed

lemma has_name_char_map:
  assumes "\<And>x. (f x = CHR ''.'') = (x = CHR ''.'')"
  shows "0 \<le> i \<Longrightarrow> d \<le> int (length p) \<Longrightarrow> has_name_char (map f p) i d = has_name_char p i d"
proof (induction p i d rule: has_name_char.induct)
  case (1 p i d)
  show ?case
  proof (cases "i < d")
    case False
    then show ?thesis by (simp add: has_name_char.simps)
  next
    case True
    with "1.prems" have n: "nat i < length p" by simp
    show ?thesis
    proof (cases "p ! nat i = CHR ''.''")
      case dot: True
      then have "has_name_char p i d = has_name_char p (i + 1) d"
        using True by (subst has_name_char.simps) simp
      moreover have "has_name_char (map f p) i d = has_name_char (map f p) (i + 1) d"
        using True dot n assms by (subst has_name_char.simps) simp
      moreover have "has_name_char (map f p) (i + 1) d = has_name_char p (i + 1) d"
        using "1.IH" [OF True] dot "1.prems" by simp
      ultimately show ?thesis by simp
    next
      case nodot: False
      then have "has_name_char p i d"
        using True by (subst has_name_char.simps) simp
      moreover have "has_name_char (map f p) i d"
        using True nodot n assms by (subst has_name_char.simps) simp
      ultimately show ?thesis by simp
    qed
  qed
qed

lemma splitext_generic_map:
  assumes "\<And>x. (f x = CHR ''.'') = (x = CHR ''.'')"
    and "\<And>x. (f x = sep) = (x = sep)"
    and "\<And>a x. altsep = Some a \<Longrightarrow> (f x = a) = (x = a)"
  shows "snd (splitext_generic sep altsep (map f p)) = map f (snd (splitext_generic sep altsep p))"
proof -
  define s where "s = (case altsep of None \<Rightarrow> rfind sep p | Some a \<Rightarrow> max (rfind sep p) (rfind a p))"
  have s': "(case altsep of None \<Rightarrow> rfind sep (map f p)
              | Some a \<Rightarrow> max (rfind sep (map f p)) (rfind a (map f p))) = s"
    using assms(2,3) by (auto simp: s_def rfind_map split: option.splits)
  have "- 1 \<le> s"
    using rfind_bounds [of sep p] by (auto simp: s_def split: option.splits)
  then have h: "has_name_char (map f p) (s + 1) (rfind (CHR ''.'') p)
      = has_name_char p (s + 1) (rfind (CHR ''.'') p)"
    using rfind_bounds [of "CHR ''.''" p] assms(1) by (intro has_name_char_map) auto
  show ?thesis
    unfolding splitext_generic_def Let_def s' rfind_map [of f "CHR ''.''", OF assms(1)] h
    unfolding s_def [symmetric]
    by (simp add: drop_map)
qed

lemma os_path_splitext_lower:
  "snd (os_path_splitext os (py_lower p)) = py_lower (snd (os_path_splitext os p))"
proof (cases os)
  case Posix
  have "snd (splitext_generic (CHR ''/'') None (map py_lower_char p))
      = map py_lower_char (snd (splitext_generic (CHR ''/'') None p))"
    by (intro splitext_generic_map) (simp_all add: py_lower_char_fixes)
  with Posix show ?thesis by (simp add: py_lower_def)
next
  case Windows
  have "snd (splitext_generic (CHR 0x5C) (Some (CHR ''/'')) (map py_lower_char p))
      = map py_lower_char (snd (splitext_generic (CHR 0x5C) (Some (CHR ''/'')) p))"
    by (intro splitext_generic_map) (simp_all add: py_lower_char_fixes)
  with Windows show ?thesis by (simp add: py_lower_def)
qed

lemma py_lower_char_idem: "py_lower_char (py_lower_char x) = py_lower_char x"
proof (cases "(65 \<le> (of_char x :: nat) \<and> (of_char x :: nat) \<le> 90)
      \<or> (192 \<le> (of_char x :: nat) \<and> (of_char x :: nat) \<le> 222 \<and> (of_char x :: nat) \<noteq> 215)")
  case False
  then show ?thesis by (auto simp: py_lower_char_def Let_def)
next
  case True
  then have l: "py_lower_char x = char_of ((of_char x :: nat) + 32)"
    by (simp add: py_lower_char_def Let_def)
  have "(of_char (py_lower_char x) :: nat) = (of_char x + 32) mod 256"
    unfolding l by simp
  with True have v: "(of_char (py_lower_char x) :: nat) = of_char x + 32" by auto
  with True show ?thesis
    by (subst py_lower_char_def) (auto simp: Let_def)
qed

lemma default_examples:
  "get_processor Posix default_processors ''MOVIE.MKV'' = Some MKVProcessor"
  "get_processor Posix default_processors ''movie.mkv'' = Some MKVProcessor"
  "get_processor Posix default_processors ''movie.xyz'' = None"
  "get_processor Windows default_processors ''MOVIE.MKV'' = Some MKVProcessor"
  "get_processor Windows default_processors ''movie.mkv'' = Some MKVProcessor"
  "get_processor Windows default_processors ''movie.xyz'' = None"
  by code_simp+

lemma default_processors_eq: "default_processors = [''.mkv'' \<mapsto> MKVProcessor]"
  by (simp add: default_processors_def register_processor_def)

text \<open>
  Claim C8. The dispatcher looks the lowercased extension up in the registry. Hence two
  paths that differ only in letter case resolve identically (a path with its extension
  in capitals resolves like the lowercase path), a path whose lowercased extension is not
  a key of the registry resolves to no processor, and with the built-in registry a path
  resolves exactly when its lowercased extension is \<open>.mkv\<close>: \<open>MOVIE.MKV\<close> and
  \<open>movie.mkv\<close> both give the MKV processor, \<open>movie.xyz\<close> gives none.
\<close>

theorem get_processor_case_insensitive:
  "(py_lower p = py_lower q \<longrightarrow> get_processor os processors p = get_processor os processors q)
   \<and> get_processor os processors (py_lower p) = get_processor os processors p
   \<and> (py_lower (snd (os_path_splitext os p)) \<notin> dom processors
        \<longrightarrow> get_processor os processors p = None)
   \<and> get_processor os default_processors p
        = (if py_lower (snd (os_path_splitext os p)) = ''.mkv'' then Some MKVProcessor else None)
   \<and> get_processor os default_processors ''MOVIE.MKV'' = Some MKVProcessor
   \<and> get_processor os default_processors ''movie.mkv'' = Some MKVProcessor
   \<and> get_processor os default_processors ''movie.xyz'' = None"
proof -
  have ext: "\<And>r. py_lower (snd (os_path_splitext os r)) = snd (os_path_splitext os (py_lower r))"
    by (simp add: os_path_splitext_lower)
  have a: "py_lower p = py_lower q \<longrightarrow> get_processor os processors p = get_processor os processors q"
    by (simp add: get_processor_def ext)
  have "py_lower (py_lower p) = py_lower p"
    by (simp add: py_lower_def py_lower_char_idem)
  then have b: "get_processor os processors (py_lower p) = get_processor os processors p"
    by (simp add: get_processor_def ext)
  have c: "py_lower (snd (os_path_splitext os p)) \<notin> dom processors
        \<longrightarrow> get_processor os processors p = None"
    by (auto simp: get_processor_def)
  have d: "get_processor os default_processors p
        = (if py_lower (snd (os_path_splitext os p)) = ''.mkv'' then Some MKVProcessor else None)"
    by (simp add: get_processor_def default_processors_eq)
  have e: "get_processor os default_processors ''MOVIE.MKV'' = Some MKVProcessor"
    "get_processor os default_processors ''movie.mkv'' = Some MKVProcessor"
    "get_processor os default_processors ''movie.xyz'' = None"
    using default_examples by (cases os; simp)+
  from a b c d e show ?thesis by blast
qed

theorem get_processor_case_insensitive_witness:
  "py_lower ''Clip.Final.MkV'' = py_lower ''clip.final.mkv''
   \<and> get_processor Windows default_processors ''Clip.Final.MkV''
       = get_processor Windows default_processors ''clip.final.mkv''
   \<and> py_lower (snd (os_path_splitext Posix ''movie.xyz'')) \<notin> dom default_processors
   \<and> get_processor Posix default_processors ''movie.xyz'' = None"
proof -
  have a: "py_lower ''Clip.Final.MkV'' = py_lower ''clip.final.mkv''"
    by code_simp
  have "py_lower (snd (os_path_splitext Posix ''movie.xyz'')) = ''.xyz''"
    by code_simp
  then have b: "py_lower (snd (os_path_splitext Posix ''movie.xyz'')) \<notin> dom default_processors"
    by (simp add: default_processors_eq)
  from a b
    get_processor_case_insensitive [of "''Clip.Final.MkV''" "''clip.final.mkv''" Windows default_processors]
    get_processor_case_insensitive [of "''movie.xyz''" "''movie.xyz''" Posix default_processors]
  show ?thesis by blast
qed


section \<open>Properties of configuration loading in the pipeline\<close>

lemma load_failed_empty:
  "load_failed rd \<Longrightarrow>
   fst (load_style_config rd path) = [] \<and> (\<exists>msg. snd (load_style_config rd path) = [(ERROR, msg)])"
  by (cases rd) (simp_all add: load_failed_def load_style_config_def)

lemma resolve_failed:
  "load_failed (config_read w) \<Longrightarrow> style_config_file rq = Some path \<Longrightarrow> path \<noteq> [] \<Longrightarrow>
   fst (resolve_style_config w rq) = Some []"
  using load_failed_empty [of "config_read w" path]
  by (auto simp: resolve_style_config_def split: prod.splits)

lemma style_and_merge_falsy:
  "style_and_merge w rq (Some []) = style_and_merge w rq None"
  by (simp add: style_and_merge_def truthy_config_def)

lemma style_and_merge_request:
  "style_and_merge w (rq\<lparr>style_config_file := a, style_config := b\<rparr>) c = style_and_merge w rq c"
  by (simp add: style_and_merge_def)

text \<open>
  Claim C9, as amended. When reading or parsing the style configuration file fails,
  \<open>load_style_config\<close> writes one error line to the log and returns the empty dictionary
  instead of raising. The pipeline treats the empty dictionary as no configuration: the
  run returns the same flag and takes the same styling step as the run of the same
  request with no style configuration at all. In every case the run ends with a flag;
  no exception leaves \<open>process_video_file\<close>.
\<close>

theorem style_load_failure_ignored:
  assumes "load_failed (config_read w)" and "style_config_file rq = Some path" and "path \<noteq> []"
  shows "fst (load_style_config (config_read w) path) = []
    \<and> (\<exists>msg. snd (load_style_config (config_read w) path) = [(ERROR, msg)])
    \<and> success (process_video_file w rq)
        = success (process_video_file w (rq\<lparr>style_config_file := None, style_config := None\<rparr>))
    \<and> styling (process_video_file w rq)
        = styling (process_video_file w (rq\<lparr>style_config_file := None, style_config := None\<rparr>))"
proof -
  let ?rq = "rq\<lparr>style_config_file := None, style_config := None\<rparr>"
  have r1: "fst (resolve_style_config w rq) = Some []"
    using assms by (rule resolve_failed)
  have r2: "fst (resolve_style_config w ?rq) = None"
    by (simp add: resolve_style_config_def truthy_config_def)
  have c: "fst (convert_style_merge w rq) = fst (convert_style_merge w ?rq)
      \<and> fst (snd (convert_style_merge w rq)) = fst (snd (convert_style_merge w ?rq))"
    using r1 r2
    by (auto simp: convert_style_merge_def Let_def style_and_merge_falsy style_and_merge_request
        split: prod.splits outcome.splits)
  have b: "fst (process_body w rq) = fst (process_body w ?rq)
      \<and> fst (snd (process_body w rq)) = fst (snd (process_body w ?rq))"
    using c
    by (auto simp: process_body_def Let_def split: prod.splits outcome.splits option.splits list.splits)
  have "success (process_video_file w rq) = success (process_video_file w ?rq)
      \<and> styling (process_video_file w rq) = styling (process_video_file w ?rq)"
    using b by (auto simp: process_video_file_def split: prod.splits outcome.splits)
  with load_failed_empty [OF assms(1), of path] show ?thesis by blast
qed

theorem style_load_failure_ignored_witness:
  "load_failed (config_read sample_world)
   \<and> style_config_file sample_request = Some ''missing.json''
   \<and> fst (load_style_config (config_read sample_world) ''missing.json'') = []
   \<and> success (process_video_file sample_world sample_request)
       = success (process_video_file sample_world
           (sample_request\<lparr>style_config_file := None, style_config := None\<rparr>))"
proof -
  have a: "load_failed (config_read sample_world)"
    by code_simp
  have b: "style_config_file sample_request = Some ''missing.json''"
    by code_simp
  have c: "''missing.json'' \<noteq> []"
    by simp
  from a b style_load_failure_ignored [OF a b c] show ?thesis by blast
qed

text \<open>
  The claim as stated fails: in the run below the configuration file is missing, the
  error is logged, and the run still returns success, with the subtitle left unstyled.
\<close>

theorem style_load_failure_not_surfaced:
  "load_failed (config_read sample_world)
   \<and> style_config_file sample_request = Some ''missing.json''
   \<and> success (process_video_file sample_world sample_request) = True
   \<and> styling (process_video_file sample_world sample_request) = Unstyled"
  by code_simp

end
